theory Spec2Isabelle
  imports Main "HOL-Library.Sublist"
begin

section \<open>JavaScript strings\<close>

text \<open>
  A JavaScript string is a sequence of UTF-16 code units, and \<open>length\<close>, \<open>substring\<close>,
  \<open>includes\<close> and the regular expressions of the plugin (none has the \<open>u\<close> flag) all count
  and compare code units. A string is therefore a list of code units, each a natural number;
  \<open>lit\<close> turns an ASCII literal of the source into its code units.
\<close>

type_synonym jsstring = "nat list"

definition lit :: "string \<Rightarrow> jsstring" where
  "lit s = map of_char s"

text \<open>\<open>s.startsWith(p)\<close> and \<open>s.includes(sub)\<close>.\<close>

definition startsWith :: "jsstring \<Rightarrow> jsstring \<Rightarrow> bool" where
  "startsWith s p = prefix p s"

fun includesStr :: "jsstring \<Rightarrow> jsstring \<Rightarrow> bool" where
  "includesStr [] sub = (sub = [])"
| "includesStr (c # cs) sub = (prefix sub (c # cs) \<or> includesStr cs sub)"

text \<open>The string of an optional string that has been tested to be present.\<close>

fun the_default :: "'a \<Rightarrow> 'a option \<Rightarrow> 'a" where
  "the_default d None = d"
| "the_default d (Some x) = x"

text \<open>\<open>parts.join(sep)\<close>.\<close>

fun joinWith :: "jsstring \<Rightarrow> jsstring list \<Rightarrow> jsstring" where
  "joinWith sep [] = []"
| "joinWith sep [x] = x"
| "joinWith sep (x # y # ys) = x @ sep @ joinWith sep (y # ys)"

text \<open>The decimal text of a non-negative integer, as a template literal prints a count.\<close>

fun digits :: "nat \<Rightarrow> jsstring" where
  "digits n = (if n < 10 then [48 + n] else digits (n div 10) @ [48 + n mod 10])"

definition showInt :: "int \<Rightarrow> jsstring" where
  "showInt i = (if i < 0 then 45 # digits (nat (- i)) else digits (nat i))"

section \<open>utils.ts\<close>

subsection \<open>truncateText\<close>

text \<open>
  \<open>truncateText(text, maxLen)\<close>: the text itself when it has at most \<open>maxLen\<close> code units,
  otherwise its first \<open>maxLen\<close> code units followed by the three dots. The limit is a
  length: every caller of \<open>truncateText\<close> and of \<open>formatReasoning\<close> passes a literal
  (200, 160, 100, 150), so it is a natural number.
\<close>

definition ellipsis :: jsstring where
  "ellipsis = lit ''...''"

definition truncateText :: "jsstring \<Rightarrow> nat \<Rightarrow> jsstring" where
  "truncateText text maxLen =
     (if length text \<le> maxLen then text else take maxLen text @ ellipsis)"

subsection \<open>isRecord, getStringField\<close>

text \<open>
  Event payloads have the type \<open>unknown\<close> and are narrowed by run-time guards, so the model
  keeps them as untyped JavaScript values. An object is the list of its own properties.
\<close>

datatype jsval =
    JUndefined
  | JNull
  | JBool bool
  | JNum int
  | JStr jsstring
  | JArr "jsval list"
  | JObj "(jsstring \<times> jsval) list"

fun isRecord :: "jsval \<Rightarrow> bool" where
  "isRecord (JObj fs) = True"
| "isRecord v = False"

text \<open>\<open>obj[key]\<close> on a value already narrowed by \<open>isRecord\<close>; a missing property is \<open>undefined\<close>.\<close>

fun getProp :: "jsval \<Rightarrow> jsstring \<Rightarrow> jsval" where
  "getProp (JObj fs) key = (case map_of fs key of Some v \<Rightarrow> v | None \<Rightarrow> JUndefined)"
| "getProp v key = JUndefined"

definition getStringField :: "jsval \<Rightarrow> jsstring \<Rightarrow> jsstring option" where
  "getStringField obj key = (case getProp obj key of JStr s \<Rightarrow> Some s | _ \<Rightarrow> None)"

subsection \<open>formatReasoning\<close>

text \<open>
  The character classes of the link pattern
  \<open>/(builds_on|debates):\s*[\w_-]+|synthesizes:\s*\[[^\]]+\]/i\<close>.
  \<open>\s\<close> is the white space and the line terminators of ECMAScript; \<open>[\w_-]\<close> is the ASCII
  letters and digits, the underscore and the hyphen. The pattern has the \<open>i\<close> flag without
  the \<open>u\<close> flag: a code unit above 127 never canonicalises to an ASCII one, so an ASCII
  letter of the pattern matches exactly its two ASCII cases.
\<close>

definition isSpace :: "nat \<Rightarrow> bool" where
  "isSpace c = (c \<in> {9, 10, 11, 12, 13, 32, 160, 5760, 8232, 8233, 8239, 8287, 12288, 65279}
                \<or> (8192 \<le> c \<and> c \<le> 8202))"

definition isWordDash :: "nat \<Rightarrow> bool" where
  "isWordDash c = ((65 \<le> c \<and> c \<le> 90) \<or> (97 \<le> c \<and> c \<le> 122) \<or> (48 \<le> c \<and> c \<le> 57)
                   \<or> c = 95 \<or> c = 45)"

definition asciiUpper :: "nat \<Rightarrow> nat" where
  "asciiUpper c = (if 97 \<le> c \<and> c \<le> 122 then c - 32 else c)"

definition ciPrefix :: "jsstring \<Rightarrow> jsstring \<Rightarrow> bool" where
  "ciPrefix p s = prefix (map asciiUpper p) (map asciiUpper s)"

text \<open>
  A match of the first alternative that starts at the head of \<open>s\<close>, as its length. The
  quantifiers are greedy, and backtracking cannot change the result: \<open>\s*\<close> and \<open>[\w_-]+\<close>
  accept disjoint classes, so giving back white space never lets the identifier start, and
  the identifier is the longest run of identifier characters.
\<close>

definition keywordAt :: "jsstring \<Rightarrow> nat option" where
  "keywordAt s = (if ciPrefix (lit ''builds_on'') s then Some 9
                  else if ciPrefix (lit ''debates'') s then Some 7
                  else None)"

definition singleLinkAt :: "jsstring \<Rightarrow> nat option" where
  "singleLinkAt s =
     (case keywordAt s of
        None \<Rightarrow> None
      | Some k \<Rightarrow>
          (case drop k s of
             [] \<Rightarrow> None
           | c # r \<Rightarrow>
               if c \<noteq> 58 then None
               else let ws = takeWhile isSpace r;
                        ident = takeWhile isWordDash (dropWhile isSpace r)
                    in if ident = [] then None
                       else Some (k + 1 + length ws + length ident)))"

text \<open>
  The second alternative: \<open>synthesizes:\<close>, white space, an opening bracket, at least one
  code unit other than the closing bracket (line breaks included), the closing bracket.
\<close>

definition synthLinkAt :: "jsstring \<Rightarrow> nat option" where
  "synthLinkAt s =
     (if ciPrefix (lit ''synthesizes:'') s then
        (let r = drop 12 s; ws = takeWhile isSpace r
         in case dropWhile isSpace r of
              [] \<Rightarrow> None
            | c # r2 \<Rightarrow>
                if c \<noteq> 91 then None
                else let body = takeWhile (\<lambda>x. x \<noteq> 93) r2
                     in (case dropWhile (\<lambda>x. x \<noteq> 93) r2 of
                           [] \<Rightarrow> None
                         | b # r3 \<Rightarrow>
                             if body = [] then None
                             else Some (12 + length ws + 1 + length body + 1)))
      else None)"

definition linkAt :: "jsstring \<Rightarrow> nat option" where
  "linkAt s = (case singleLinkAt s of Some n \<Rightarrow> Some n | None \<Rightarrow> synthLinkAt s)"

text \<open>\<open>reasoning.match(pattern)\<close>: the leftmost match, as the matched text \<open>linkMatch[0]\<close>.\<close>

fun linkMatch :: "jsstring \<Rightarrow> jsstring option" where
  "linkMatch [] = None"
| "linkMatch (c # cs) =
     (case linkAt (c # cs) of
        Some n \<Rightarrow> Some (take n (c # cs))
      | None \<Rightarrow> linkMatch cs)"

text \<open>
  The link glyph of the template literal, spelled with the code units the source file has
  for it, between a line break with two spaces and a single space.
\<close>

definition linkGlyph :: jsstring where
  "linkGlyph = [240, 376, 8221, 8212]"

definition linkPrefix :: jsstring where
  "linkPrefix = [10, 32, 32] @ linkGlyph @ [32]"

definition truncatedReasoning :: "jsstring \<Rightarrow> nat \<Rightarrow> jsstring" where
  "truncatedReasoning reasoning maxLen =
     (if length reasoning > maxLen then take maxLen reasoning @ ellipsis else reasoning)"

definition formatReasoning :: "jsstring \<Rightarrow> nat \<Rightarrow> jsstring" where
  "formatReasoning reasoning maxLen =
     (if reasoning = [] then []
      else let truncated = truncatedReasoning reasoning maxLen
           in case linkMatch reasoning of
                Some m \<Rightarrow> if \<not> includesStr truncated m then truncated @ linkPrefix @ m
                          else truncated
              | None \<Rightarrow> truncated)"

subsection \<open>isRecentCheckpoint\<close>

text \<open>
  Times are milliseconds since the epoch. \<open>dateParse\<close> is the host's
  \<open>new Date(s).getTime()\<close>, with \<open>None\<close> for the \<open>NaN\<close> of an invalid date, against which
  every comparison is false; \<open>now\<close> is the value \<open>Date.now()\<close> returns.
\<close>

definition defaultThresholdMs :: int where
  "defaultThresholdMs = 5 * 60 * 1000"

definition isRecentCheckpoint ::
  "(jsstring \<Rightarrow> int option) \<Rightarrow> int \<Rightarrow> jsstring \<Rightarrow> int \<Rightarrow> bool" where
  "isRecentCheckpoint dateParse now checkpointTimestamp thresholdMs =
     (case dateParse checkpointTimestamp of
        None \<Rightarrow> False
      | Some checkpointTime \<Rightarrow> now - checkpointTime < thresholdMs)"

section \<open>index.ts\<close>

subsection \<open>Backend records, the outside world, the plugin state\<close>

text \<open>
  \<open>MAMADecision\<close> and \<open>MAMACheckpoint\<close>. An optional string is absent or present; the
  source tests it for truthiness, which also rejects the empty string. \<open>pct\<close> is the number
  \<open>Math.round((r.similarity || 0) * 100)\<close>, a floating-point product that the model takes
  as given.
\<close>

record mama_decision =
  dec_id :: jsstring
  topic :: jsstring
  decision_text :: jsstring
  reasoning :: jsstring
  outcome :: "jsstring option"
  pct :: int

record mama_checkpoint =
  cp_id :: nat
  summary :: jsstring
  next_steps :: "jsstring option"
  timestamp :: jsstring

definition truthy :: "jsstring option \<Rightarrow> bool" where
  "truthy v = (case v of None \<Rightarrow> False | Some s \<Rightarrow> s \<noteq> [])"

text \<open>
  A thrown error is the value \<open>Inl msg\<close>, with the message \<open>getErrorMessage\<close> reads from it.
\<close>

type_synonym 'a result = "jsstring + 'a"

text \<open>
  What the world outside the plugin answers while one handler runs. \<open>clock\<close> is the time
  the handler reads first and \<open>clockLater\<close> the time \<open>session_end\<close> reads for the end of
  the session; \<open>isoString\<close> is \<open>toISOString\<close> on a valid time and \<open>dateParse\<close> the time
  value of \<open>new Date(s)\<close>. \<open>homeClaudeDir\<close> is the directory part of
  \<open>path.join(os.homedir(), '.claude/mama-memory.db')\<close>. \<open>requireApi\<close> is the loading of
  \<open>mama-api.js\<close>, and \<open>initDB\<close> the loading of \<open>memory-store.js\<close> followed by its
  \<open>initDB()\<close>. Each backend operation throws or returns; \<open>suggest\<close> may return \<open>null\<close> or
  an object without results (\<open>None\<close>). The similarity threshold passed to \<open>suggest\<close> is the
  constant 0.5 and the file list passed to \<open>saveCheckpoint\<close> is always empty; both are left
  out. \<open>upperCase\<close> is the single code unit \<open>toUpperCase\<close> gives for a code unit above 127
  (the code unit itself where it gives several), which case-insensitive matching uses.
\<close>

record world =
  clock :: int
  clockLater :: int
  isoString :: "int \<Rightarrow> jsstring"
  dateParse :: "jsstring \<Rightarrow> int option"
  upperCase :: "nat \<Rightarrow> nat"
  homeClaudeDir :: jsstring
  requireApi :: "unit result"
  initDB :: "unit result"
  suggest :: "jsstring \<Rightarrow> nat \<Rightarrow> mama_decision list option result"
  loadCheckpoint :: "mama_checkpoint option result"
  listDecisions :: "nat \<Rightarrow> mama_decision list result"
  saveCheckpoint :: "jsstring \<Rightarrow> jsstring \<Rightarrow> nat result"

text \<open>One constructor for each \<open>console\<close> call of the source, with the values it prints.\<close>

datatype logentry =
    WarnDifferentDbPath jsstring jsstring
  | LogInitialized jsstring
  | ErrInitFailed jsstring
  | LogSessionStartCheckpoint jsstring
  | LogSessionStartRecent nat
  | ErrSessionStart jsstring
  | ErrSemanticSearch jsstring
  | LogAutoRecall nat nat bool bool
  | ErrAutoRecall jsstring
  | LogAutoCaptureCandidate jsstring
  | ErrAutoCapture jsstring
  | LogSessionEndSkipping
  | LogSessionEndSaved nat nat
  | ErrSessionEnd jsstring
  | LogBeforeCompactionSaved nat
  | ErrBeforeCompaction jsstring
  | LogAfterCompaction
  | LogCheckpointAvailable jsstring
  | LogReadyForReinjection nat
  | ErrAfterCompaction jsstring

text \<open>
  The module-level variables, with \<open>process.env.MAMA_DB_PATH\<close> (which \<open>initMAMA\<close> writes)
  and the console. \<open>mama\<close> tells whether the API handle is not \<open>null\<close>.
\<close>

record plugin_state =
  initialized :: bool
  mama :: bool
  initialDbPath :: "jsstring option"
  envDbPath :: "jsstring option"
  compactionOccurred :: bool
  sessionStartedAt :: "jsstring option"
  lastUserPrompt :: "jsstring option"
  lastCompactionAt :: "jsstring option"
  lastAutoCaptureCandidates :: "jsstring list"
  console :: "logentry list"

definition initialState :: "jsstring option \<Rightarrow> plugin_state" where
  "initialState env =
     \<lparr> initialized = False, mama = False, initialDbPath = None, envDbPath = env,
       compactionOccurred = False, sessionStartedAt = None, lastUserPrompt = None,
       lastCompactionAt = None, lastAutoCaptureCandidates = [], console = [] \<rparr>"

definition logTo :: "logentry \<Rightarrow> plugin_state \<Rightarrow> plugin_state" where
  "logTo e st = st\<lparr>console := console st @ [e]\<rparr>"

subsection \<open>getMAMA, initMAMA\<close>

definition getMAMA :: "plugin_state \<Rightarrow> unit result" where
  "getMAMA st = (if \<not> mama st then Inl (lit ''MAMA not initialized. Call initMAMA() first.'')
                 else Inr ())"

text \<open>
  \<open>config?.dbPath || process.env.MAMA_DB_PATH || path.join(os.homedir(), '.claude/mama-memory.db')\<close>.
  \<open>path.join\<close> normalises the directory part, which the world supplies with its separator;
  the file name is the last segment of the result.
\<close>

definition defaultDbPath :: "world \<Rightarrow> jsstring" where
  "defaultDbPath w = homeClaudeDir w @ lit ''mama-memory.db''"

definition resolveDbPath :: "jsstring option \<Rightarrow> world \<Rightarrow> plugin_state \<Rightarrow> jsstring" where
  "resolveDbPath config w st =
     (if truthy config then the_default [] config
      else if truthy (envDbPath st) then the_default [] (envDbPath st)
      else defaultDbPath w)"

definition initMAMA ::
  "jsstring option \<Rightarrow> world \<Rightarrow> plugin_state \<Rightarrow> unit result \<times> plugin_state" where
  "initMAMA config w st =
     (let dbPath = resolveDbPath config w st
      in if initialized st then
           (Inr (),
            if truthy (initialDbPath st) \<and> Some dbPath \<noteq> initialDbPath st
            then logTo (WarnDifferentDbPath dbPath (the_default [] (initialDbPath st))) st
            else st)
         else
           (let st1 = st\<lparr>envDbPath := Some dbPath\<rparr>
            in case requireApi w of
                 Inl e \<Rightarrow> (Inl e, logTo (ErrInitFailed e) st1)
               | Inr u \<Rightarrow>
                   (let st2 = st1\<lparr>mama := True\<rparr>
                    in case initDB w of
                         Inl e \<Rightarrow> (Inl e, logTo (ErrInitFailed e) st2)
                       | Inr u' \<Rightarrow>
                           (Inr (),
                            logTo (LogInitialized dbPath)
                              (st2\<lparr>initialized := True, initialDbPath := Some dbPath\<rparr>)))))"

subsection \<open>session\_start\<close>

text \<open>
  Every handler body is inside \<open>try\<close>: an error thrown by \<open>initMAMA\<close>, \<open>getMAMA\<close> or a
  backend operation ends the body, is logged and swallowed, and the state keeps what the
  body had assigned before.
\<close>

definition session_start :: "jsstring option \<Rightarrow> world \<Rightarrow> plugin_state \<Rightarrow> plugin_state" where
  "session_start config w st =
     (case initMAMA config w st of
        (Inl e, st1) \<Rightarrow> logTo (ErrSessionStart e) st1
      | (Inr u, st1) \<Rightarrow>
          (let st2 = st1\<lparr>sessionStartedAt := Some (isoString w (clock w)),
                          lastUserPrompt := None,
                          lastCompactionAt := None,
                          lastAutoCaptureCandidates := [],
                          compactionOccurred := False\<rparr>
           in case getMAMA st2 of
                Inl e \<Rightarrow> logTo (ErrSessionStart e) st2
              | Inr u' \<Rightarrow>
                  (case loadCheckpoint w of
                     Inl e \<Rightarrow> logTo (ErrSessionStart e) st2
                   | Inr checkpoint \<Rightarrow>
                       (case listDecisions w 5 of
                          Inl e \<Rightarrow> logTo (ErrSessionStart e) st2
                        | Inr recentDecisions \<Rightarrow>
                            (let st3 = (case checkpoint of
                                          None \<Rightarrow> st2
                                        | Some cp \<Rightarrow>
                                            logTo (LogSessionStartCheckpoint (timestamp cp)) st2)
                             in if length recentDecisions > 0
                                then logTo (LogSessionStartRecent (length recentDecisions)) st3
                                else st3)))))"

subsection \<open>before\_agent\_start\<close>

definition eventPrompt :: "jsval \<Rightarrow> jsstring" where
  "eventPrompt event =
     (if isRecord event
      then (case getStringField event (lit ''prompt'') of Some s \<Rightarrow> s | None \<Rightarrow> [])
      else [])"

text \<open>
  Step 1: the semantic search, with limit 3, for a prompt of at least five code units. An
  error of the search is logged and leaves the result list empty.
\<close>

definition semanticSearch :: "world \<Rightarrow> jsstring \<Rightarrow> mama_decision list \<times> logentry list" where
  "semanticSearch w userPrompt =
     (if userPrompt \<noteq> [] \<and> length userPrompt \<ge> 5 then
        (case suggest w userPrompt 3 of
           Inl e \<Rightarrow> ([], [ErrSemanticSearch e])
         | Inr None \<Rightarrow> ([], [])
         | Inr (Some results) \<Rightarrow> (results, []))
      else ([], []))"

definition semanticResults :: "world \<Rightarrow> jsstring \<Rightarrow> mama_decision list" where
  "semanticResults w userPrompt = fst (semanticSearch w userPrompt)"

text \<open>Step 3: the recent decisions are listed only when the search gave nothing.\<close>

definition loadRecent :: "world \<Rightarrow> mama_decision list \<Rightarrow> mama_decision list result" where
  "loadRecent w semantic = (if length semantic = 0 then listDecisions w 3 else Inr [])"

definition compactionNoteText :: jsstring where
  "compactionNoteText =
     [10] @ lit ''**Note:** Context was recently compressed. Above memories help restore state.''
     @ [10]"

text \<open>Step 5: the text block, section by section as the source appends them.\<close>

definition outcomeSuffix :: "mama_decision \<Rightarrow> jsstring" where
  "outcomeSuffix r =
     (if truthy (outcome r) then lit '' ('' @ the_default [] (outcome r) @ lit '')'' else [])"

definition renderSemantic :: "mama_decision \<Rightarrow> jsstring" where
  "renderSemantic r =
     lit ''- **'' @ topic r @ lit ''** ['' @ showInt (pct r) @ lit ''%]: '' @ decision_text r
     @ outcomeSuffix r
     @ [10] @ lit ''  _'' @ formatReasoning (reasoning r) 100 @ lit ''_'' @ [10]
     @ lit ''  ID: `'' @ dec_id r @ lit ''`'' @ [10]"

definition relevantSection :: "mama_decision list \<Rightarrow> jsstring" where
  "relevantSection semantic =
     lit ''## Relevant Decisions (semantic match)'' @ [10, 10]
     @ concat (map renderSemantic semantic) @ [10]"

text \<open>
  \<open>new Date(checkpoint.timestamp).toISOString()\<close> throws a \<open>RangeError\<close> for an invalid
  date; the error leaves the body like any other.
\<close>

definition checkpointSection :: "world \<Rightarrow> mama_checkpoint \<Rightarrow> jsstring result" where
  "checkpointSection w cp =
     (case dateParse w (timestamp cp) of
        None \<Rightarrow> Inl (lit ''Invalid time value'')
      | Some t \<Rightarrow>
          Inr (lit ''## Last Checkpoint ('' @ isoString w t @ lit '')'' @ [10, 10]
               @ lit ''**Summary:** '' @ summary cp @ [10, 10]
               @ (if truthy (next_steps cp)
                  then lit ''**Next Steps:** '' @ the_default [] (next_steps cp) @ [10, 10]
                  else [])))"

definition renderRecent :: "mama_decision \<Rightarrow> jsstring" where
  "renderRecent d =
     lit ''- **'' @ topic d @ lit ''**: '' @ decision_text d @ outcomeSuffix d @ [10]"

definition recentSection :: "mama_decision list \<Rightarrow> jsstring" where
  "recentSection recent =
     lit ''## Recent Decisions'' @ [10, 10] @ concat (map renderRecent recent) @ [10]"

definition contextHeader :: jsstring where
  "contextHeader = lit ''<relevant-memories>'' @ [10] @ lit ''# MAMA Memory Context'' @ [10, 10]"

definition contextFooter :: jsstring where
  "contextFooter = lit ''</relevant-memories>''"

definition renderContext ::
  "world \<Rightarrow> mama_decision list \<Rightarrow> mama_checkpoint option \<Rightarrow> mama_decision list \<Rightarrow> jsstring
   \<Rightarrow> jsstring result" where
  "renderContext w semantic checkpoint recent compactionNote =
     (let c1 = contextHeader @ (if length semantic > 0 then relevantSection semantic else [])
      in case (case checkpoint of
                 None \<Rightarrow> Inr c1
               | Some cp \<Rightarrow>
                   (case checkpointSection w cp of Inl e \<Rightarrow> Inl e | Inr s \<Rightarrow> Inr (c1 @ s))) of
           Inl e \<Rightarrow> Inl e
         | Inr c2 \<Rightarrow>
             Inr (c2 @ (if length recent > 0 then recentSection recent else [])
                  @ compactionNote @ contextFooter))"

text \<open>
  The part of the body after the checkpoint and the two lists are loaded: the compaction
  note, the flag it clears, and the block that is returned when there is something to show.
\<close>

definition injectContext ::
  "world \<Rightarrow> mama_decision list \<Rightarrow> mama_checkpoint option \<Rightarrow> mama_decision list
   \<Rightarrow> plugin_state \<Rightarrow> jsstring option \<times> plugin_state" where
  "injectContext w semantic checkpoint recent st =
     (let compactionNote = (if compactionOccurred st then compactionNoteText else []);
          st1 = (if compactionOccurred st then st\<lparr>compactionOccurred := False\<rparr> else st)
      in if checkpoint \<noteq> None \<or> length semantic > 0 \<or> length recent > 0 then
           (case renderContext w semantic checkpoint recent compactionNote of
              Inl e \<Rightarrow> (None, logTo (ErrAutoRecall e) st1)
            | Inr content \<Rightarrow>
                (Some content,
                 logTo (LogAutoRecall (length semantic) (length recent) (checkpoint \<noteq> None)
                          (compactionNote \<noteq> [])) st1))
         else (None, st1))"

definition before_agent_start ::
  "jsstring option \<Rightarrow> jsval \<Rightarrow> world \<Rightarrow> plugin_state \<Rightarrow> jsstring option \<times> plugin_state" where
  "before_agent_start config event w st =
     (case initMAMA config w st of
        (Inl e, st1) \<Rightarrow> (None, logTo (ErrAutoRecall e) st1)
      | (Inr u, st1) \<Rightarrow>
          (let userPrompt = eventPrompt event;
               st2 = st1\<lparr>lastUserPrompt :=
                            (if userPrompt \<noteq> [] then Some (truncateText userPrompt 200)
                             else None)\<rparr>
           in case getMAMA st2 of
                Inl e \<Rightarrow> (None, logTo (ErrAutoRecall e) st2)
              | Inr u' \<Rightarrow>
                  (let semantic = semanticResults w userPrompt;
                       st3 = st2\<lparr>console := console st2 @ snd (semanticSearch w userPrompt)\<rparr>
                   in case loadCheckpoint w of
                        Inl e \<Rightarrow> (None, logTo (ErrAutoRecall e) st3)
                      | Inr checkpoint \<Rightarrow>
                          (case loadRecent w semantic of
                             Inl e \<Rightarrow> (None, logTo (ErrAutoRecall e) st3)
                           | Inr recent \<Rightarrow> injectContext w semantic checkpoint recent st3))))"

subsection \<open>agent\_end\<close>

text \<open>The texts of the user and assistant messages: string contents and text blocks.\<close>

definition blockTexts :: "jsval \<Rightarrow> jsstring list" where
  "blockTexts block =
     (if \<not> isRecord block then []
      else if getProp block (lit ''type'') = JStr (lit ''text'')
      then (case getProp block (lit ''text'') of JStr t \<Rightarrow> [t] | _ \<Rightarrow> [])
      else [])"

definition messageTexts :: "jsval \<Rightarrow> jsstring list" where
  "messageTexts msg =
     (if \<not> isRecord msg then []
      else let role = getProp msg (lit ''role'')
           in if role \<noteq> JStr (lit ''user'') \<and> role \<noteq> JStr (lit ''assistant'') then []
              else (case getProp msg (lit ''content'') of
                      JStr s \<Rightarrow> [s]
                    | JArr blocks \<Rightarrow> concat (map blockTexts blocks)
                    | _ \<Rightarrow> []))"

definition extractTexts :: "jsval list \<Rightarrow> jsstring list" where
  "extractTexts messages = concat (map messageTexts messages)"

text \<open>
  The three decision patterns carry the \<open>i\<close> flag. Two code units match when they have the
  same canonical form: the ASCII upper case below 128, and above it the upper case of the
  host unless that is an ASCII code unit.
\<close>

definition canonicalize :: "(nat \<Rightarrow> nat) \<Rightarrow> nat \<Rightarrow> nat" where
  "canonicalize uc ch =
     (if ch < 128 then asciiUpper ch
      else let cu = uc ch in if cu < 128 then ch else cu)"

definition ciIncludes :: "(nat \<Rightarrow> nat) \<Rightarrow> jsstring \<Rightarrow> jsstring \<Rightarrow> bool" where
  "ciIncludes uc text kw = includesStr (map (canonicalize uc) text) (map (canonicalize uc) kw)"

text \<open>
  \<open>use.*instead\<close>: the dot accepts every code unit but the four line terminators, so the
  word \<open>instead\<close> has to occur on the same line after some \<open>use\<close>.
\<close>

definition isLineTerminator :: "nat \<Rightarrow> bool" where
  "isLineTerminator c = (c = 10 \<or> c = 13 \<or> c = 8232 \<or> c = 8233)"

fun useInstead :: "(nat \<Rightarrow> nat) \<Rightarrow> jsstring \<Rightarrow> bool" where
  "useInstead uc [] = False"
| "useInstead uc (c # cs) =
     ((prefix (map (canonicalize uc) (lit ''use'')) (map (canonicalize uc) (c # cs))
       \<and> ciIncludes uc (takeWhile (\<lambda>x. \<not> isLineTerminator x) (drop 3 (c # cs)))
            (lit ''instead''))
      \<or> useInstead uc cs)"

text \<open>
  The keywords that are not ASCII, as the code units with which the source file spells them.
\<close>

definition kwDecided2 :: jsstring where "kwDecided2 = [205, 8804, 8734, 207, 8224, 239]"
definition kwChose2 :: jsstring where "kwChose2 = [207, 209, 8224, 204, 201, 249]"
definition kwWillUse2 :: jsstring where
  "kwWillUse2 = [207, 199, 168, 207, 246, 169, 204, 239, 8224]"
definition kwApproach2 :: jsstring where "kwApproach2 = [206, 8734, 169, 207, 227, 249]"
definition kwRemember2 :: jsstring where "kwRemember2 = [205, 8719, 8734, 207, 241, 181]"
definition kwLearned2 :: jsstring where "kwLearned2 = [206, 8734, 8734, 207, 245, 8224]"

definition decisionPattern1 :: "(nat \<Rightarrow> nat) \<Rightarrow> jsstring \<Rightarrow> bool" where
  "decisionPattern1 uc text =
     (ciIncludes uc text (lit ''decided'') \<or> ciIncludes uc text kwDecided2
      \<or> ciIncludes uc text kwChose2 \<or> ciIncludes uc text (lit ''chose'')
      \<or> useInstead uc text \<or> ciIncludes uc text (lit ''going with''))"

definition decisionPattern2 :: "(nat \<Rightarrow> nat) \<Rightarrow> jsstring \<Rightarrow> bool" where
  "decisionPattern2 uc text =
     (ciIncludes uc text (lit ''will use'') \<or> ciIncludes uc text kwWillUse2
      \<or> ciIncludes uc text (lit ''approach'') \<or> ciIncludes uc text kwApproach2
      \<or> ciIncludes uc text (lit ''strategy''))"

definition decisionPattern3 :: "(nat \<Rightarrow> nat) \<Rightarrow> jsstring \<Rightarrow> bool" where
  "decisionPattern3 uc text =
     (ciIncludes uc text (lit ''remember'') \<or> ciIncludes uc text kwRemember2
      \<or> ciIncludes uc text (lit ''learned'') \<or> ciIncludes uc text kwLearned2
      \<or> ciIncludes uc text (lit ''lesson''))"

text \<open>\<open>decisionPatterns.some((p) => p.test(text))\<close>.\<close>

definition isDecision :: "(nat \<Rightarrow> nat) \<Rightarrow> jsstring \<Rightarrow> bool" where
  "isDecision uc text =
     (decisionPattern1 uc text \<or> decisionPattern2 uc text \<or> decisionPattern3 uc text)"

text \<open>
  The chain of \<open>continue\<close> statements in the loop over the texts: a text is a candidate
  when none of the four guards skips it.
\<close>

definition isCandidateDecision :: "(nat \<Rightarrow> nat) \<Rightarrow> jsstring \<Rightarrow> bool" where
  "isCandidateDecision uc text =
     (if length text < 20 \<or> length text > 500 then False
      else if includesStr text (lit ''<relevant-memories>'') then False
      else if startsWith text (lit ''<'') \<and> includesStr text (lit ''</'') then False
      else if \<not> isDecision uc text then False
      else True)"

text \<open>
  \<open>if (!candidates.includes(candidate)) candidates = [candidate, ...candidates].slice(0, 3)\<close>.
\<close>

definition addCandidate :: "jsstring \<Rightarrow> jsstring list \<Rightarrow> jsstring list" where
  "addCandidate candidate candidates =
     (if \<not> List.member candidates candidate then take 3 (candidate # candidates)
      else candidates)"

definition captureText :: "(nat \<Rightarrow> nat) \<Rightarrow> plugin_state \<Rightarrow> jsstring \<Rightarrow> plugin_state" where
  "captureText uc st text =
     (if \<not> isCandidateDecision uc text then st
      else let candidate = truncateText text 160
           in logTo (LogAutoCaptureCandidate candidate)
                (st\<lparr>lastAutoCaptureCandidates :=
                       addCandidate candidate (lastAutoCaptureCandidates st)\<rparr>))"

definition agent_end :: "jsstring option \<Rightarrow> jsval \<Rightarrow> world \<Rightarrow> plugin_state \<Rightarrow> plugin_state" where
  "agent_end config event w st =
     (if \<not> isRecord event then st
      else let success = (getProp event (lit ''success'') = JBool True);
               messages = (case getProp event (lit ''messages'') of JArr ms \<Rightarrow> ms | _ \<Rightarrow> [])
           in if \<not> success \<or> length messages = 0 then st
              else (case initMAMA config w st of
                      (Inl e, st1) \<Rightarrow> logTo (ErrAutoCapture e) st1
                    | (Inr u, st1) \<Rightarrow>
                        foldl (captureText (upperCase w)) st1 (extractTexts messages)))"

subsection \<open>session\_end\<close>

definition shouldSkip :: "world \<Rightarrow> mama_checkpoint option \<Rightarrow> bool" where
  "shouldSkip w existingCheckpoint =
     (case existingCheckpoint of
        None \<Rightarrow> False
      | Some cp \<Rightarrow> isRecentCheckpoint (dateParse w) (clock w) (timestamp cp) defaultThresholdMs)"

text \<open>\<open>t.trim().length > 0\<close>: some code unit of the topic is not white space.\<close>

definition nonBlank :: "jsstring \<Rightarrow> bool" where
  "nonBlank t = (\<exists>c \<in> set t. \<not> isSpace c)"

definition summaryText :: "world \<Rightarrow> plugin_state \<Rightarrow> mama_decision list \<Rightarrow> jsstring" where
  "summaryText w st recentDecisions =
     (let recentTopics = take 5 (filter nonBlank (map topic recentDecisions))
      in joinWith [10]
           ([lit ''Session ended: '' @ isoString w (clockLater w)]
            @ (if truthy (sessionStartedAt st)
               then [lit ''Session started: '' @ the_default [] (sessionStartedAt st)] else [])
            @ (if truthy (lastUserPrompt st)
               then [lit ''Last user prompt: '' @ the_default [] (lastUserPrompt st)] else [])
            @ (if truthy (lastCompactionAt st)
               then [lit ''Last compaction: '' @ the_default [] (lastCompactionAt st)] else [])
            @ [lit ''Decisions recorded (recent): '' @ digits (length recentDecisions)]
            @ (if length recentTopics > 0
               then [lit ''Recent topics: '' @ joinWith (lit '', '') recentTopics] else [])))"

definition lastTopic :: "mama_decision list \<Rightarrow> jsstring" where
  "lastTopic recentDecisions =
     (case recentDecisions of
        [] \<Rightarrow> lit ''unknown''
      | d # ds \<Rightarrow> if topic d \<noteq> [] then topic d else lit ''unknown'')"

definition nextStepsText :: "plugin_state \<Rightarrow> mama_decision list \<Rightarrow> jsstring" where
  "nextStepsText st recentDecisions =
     joinWith [10, 10]
       ((if length (lastAutoCaptureCandidates st) > 0
         then [lit ''Review auto-capture candidates:'' @ [10] @ lit ''- ''
               @ joinWith ([10] @ lit ''- '') (lastAutoCaptureCandidates st)]
         else [])
        @ (if length recentDecisions > 0
           then [lit ''Review recent decisions (count: '' @ digits (length recentDecisions)
                 @ lit ''). Last topic: '' @ lastTopic recentDecisions]
           else [lit ''No new decisions recorded in this session.''])
        @ [lit ''On next session start: load checkpoint and continue from the last prompt.''])"

definition session_end :: "jsstring option \<Rightarrow> world \<Rightarrow> plugin_state \<Rightarrow> plugin_state" where
  "session_end config w st =
     (case initMAMA config w st of
        (Inl e, st1) \<Rightarrow> logTo (ErrSessionEnd e) st1
      | (Inr u, st1) \<Rightarrow>
          (case getMAMA st1 of
             Inl e \<Rightarrow> logTo (ErrSessionEnd e) st1
           | Inr u' \<Rightarrow>
               (case loadCheckpoint w of
                  Inl e \<Rightarrow> logTo (ErrSessionEnd e) st1
                | Inr existingCheckpoint \<Rightarrow>
                    if shouldSkip w existingCheckpoint then logTo LogSessionEndSkipping st1
                    else (case listDecisions w 10 of
                            Inl e \<Rightarrow> logTo (ErrSessionEnd e) st1
                          | Inr recentDecisions \<Rightarrow>
                              (case saveCheckpoint w (summaryText w st1 recentDecisions)
                                      (nextStepsText st1 recentDecisions) of
                                 Inl e \<Rightarrow> logTo (ErrSessionEnd e) st1
                               | Inr checkpointId \<Rightarrow>
                                   logTo (LogSessionEndSaved checkpointId
                                            (length recentDecisions)) st1)))))"

subsection \<open>before\_compaction, after\_compaction\<close>

definition before_compaction :: "jsstring option \<Rightarrow> world \<Rightarrow> plugin_state \<Rightarrow> plugin_state" where
  "before_compaction config w st =
     (case initMAMA config w st of
        (Inl e, st1) \<Rightarrow> logTo (ErrBeforeCompaction e) st1
      | (Inr u, st1) \<Rightarrow>
          (let now = isoString w (clock w);
               st2 = st1\<lparr>lastCompactionAt := Some now\<rparr>;
               summary = lit ''Pre-compaction checkpoint: '' @ now
                         @ lit ''. Context will be compressed.''
           in case getMAMA st2 of
                Inl e \<Rightarrow> logTo (ErrBeforeCompaction e) st2
              | Inr u' \<Rightarrow>
                  (case saveCheckpoint w summary
                          (lit ''Resume after compaction - check previous context'') of
                     Inl e \<Rightarrow> logTo (ErrBeforeCompaction e) st2
                   | Inr checkpointId \<Rightarrow>
                       logTo (LogBeforeCompactionSaved checkpointId)
                         (st2\<lparr>compactionOccurred := True\<rparr>))))"

definition after_compaction :: "jsstring option \<Rightarrow> world \<Rightarrow> plugin_state \<Rightarrow> plugin_state" where
  "after_compaction config w st =
     (case initMAMA config w st of
        (Inl e, st1) \<Rightarrow> logTo (ErrAfterCompaction e) st1
      | (Inr u, st1) \<Rightarrow>
          (case getMAMA st1 of
             Inl e \<Rightarrow> logTo (ErrAfterCompaction e) st1
           | Inr u' \<Rightarrow>
               (case loadCheckpoint w of
                  Inl e \<Rightarrow> logTo (ErrAfterCompaction e) st1
                | Inr checkpoint \<Rightarrow>
                    (case listDecisions w 5 of
                       Inl e \<Rightarrow> logTo (ErrAfterCompaction e) st1
                     | Inr recentDecisions \<Rightarrow>
                         (let st2 = logTo LogAfterCompaction st1;
                              st3 = (case checkpoint of
                                       None \<Rightarrow> st2
                                     | Some cp \<Rightarrow>
                                         logTo (LogCheckpointAvailable (take 50 (summary cp))) st2)
                          in if length recentDecisions > 0
                             then logTo (LogReadyForReinjection (length recentDecisions)) st3
                             else st3)))))"

subsection \<open>The tools and the event stream\<close>

text \<open>
  The four tools (\<open>mama_search\<close>, \<open>mama_save\<close>, \<open>mama_load_checkpoint\<close>, \<open>mama_update\<close>)
  read and write none of the module variables themselves: a tool call changes the plugin
  state through its call of \<open>initMAMA\<close> only, and answers with a text that is not modelled.
\<close>

definition tool_execute :: "jsstring option \<Rightarrow> world \<Rightarrow> plugin_state \<Rightarrow> plugin_state" where
  "tool_execute config w st = snd (initMAMA config w st)"

text \<open>
  The host delivers one event at a time. Each comes with the configuration of the
  registration that receives it and with the answers of the world during its handler.
\<close>

datatype event =
    SessionStart
  | BeforeAgentStart jsval
  | AgentEnd jsval
  | SessionEnd
  | BeforeCompaction
  | AfterCompaction
  | ToolCall

fun handle :: "jsstring option \<Rightarrow> event \<Rightarrow> world \<Rightarrow> plugin_state \<Rightarrow> plugin_state" where
  "handle config SessionStart w st = session_start config w st"
| "handle config (BeforeAgentStart ev) w st = snd (before_agent_start config ev w st)"
| "handle config (AgentEnd ev) w st = agent_end config ev w st"
| "handle config SessionEnd w st = session_end config w st"
| "handle config BeforeCompaction w st = before_compaction config w st"
| "handle config AfterCompaction w st = after_compaction config w st"
| "handle config ToolCall w st = tool_execute config w st"

fun run :: "(jsstring option \<times> event \<times> world) list \<Rightarrow> plugin_state \<Rightarrow> plugin_state" where
  "run [] st = st"
| "run ((config, ev, w) # rest) st = run rest (handle config ev w st)"

section \<open>Notions for the properties\<close>

text \<open>
  The variables of the initialisation gate, and those of the session. A path is fixed
  in a state when the gate is closed on it.
\<close>

definition initPart :: "plugin_state \<Rightarrow> bool \<times> bool \<times> jsstring option \<times> jsstring option" where
  "initPart st = (initialized st, mama st, initialDbPath st, envDbPath st)"

definition sessionPart ::
  "plugin_state \<Rightarrow> bool \<times> jsstring option \<times> jsstring option \<times> jsstring option \<times> jsstring list"
  where
  "sessionPart st = (compactionOccurred st, sessionStartedAt st, lastUserPrompt st,
                     lastCompactionAt st, lastAutoCaptureCandidates st)"

definition pathFixed :: "jsstring \<Rightarrow> plugin_state \<Rightarrow> bool" where
  "pathFixed p st = (initialized st \<and> mama st \<and> initialDbPath st = Some p
                     \<and> envDbPath st = Some p \<and> p \<noteq> [])"

text \<open>
  What holds in every state the plugin can reach: an open gate has stored no prompt, a closed
  gate has its handle and its path, and the candidates are at most three distinct strings.
\<close>

definition stateInv :: "plugin_state \<Rightarrow> bool" where
  "stateInv st =
     ((if initialized st then (\<exists>p. pathFixed p st) else lastUserPrompt st = None)
      \<and> length (lastAutoCaptureCandidates st) \<le> 3
      \<and> distinct (lastAutoCaptureCandidates st))"

text \<open>
  No match of the link pattern starts within \<open>pre\<close> when the text \<open>s\<close> follows it.
\<close>

fun noLinkBefore :: "jsstring \<Rightarrow> jsstring \<Rightarrow> bool" where
  "noLinkBefore [] s = True"
| "noLinkBefore (p # pre) s = (linkAt (p # pre @ s) = None \<and> noLinkBefore pre s)"

text \<open>A sequence of candidate insertions, the oldest first.\<close>

definition addCandidates :: "jsstring list \<Rightarrow> jsstring list \<Rightarrow> jsstring list" where
  "addCandidates cs candidates = foldl (\<lambda>xs c. addCandidate c xs) candidates cs"

text \<open>
  A world for the examples: the backend is reachable and empty, the clock stands at 0.
\<close>

definition exampleWorld :: world where
  "exampleWorld =
     \<lparr> clock = 0, clockLater = 0,
       isoString = (\<lambda>t. lit ''1970-01-01T00:00:00.000Z''),
       dateParse = (\<lambda>s. if s = lit ''1970-01-01T00:00:00.000Z'' then Some 0 else None),
       upperCase = (\<lambda>c. c),
       homeClaudeDir = lit ''/home/u/.claude/'',
       requireApi = Inr (), initDB = Inr (),
       suggest = (\<lambda>q n. Inr None),
       loadCheckpoint = Inr None,
       listDecisions = (\<lambda>n. Inr []),
       saveCheckpoint = (\<lambda>s n. Inr 1) \<rparr>"

text \<open>
  A backend that holds two decisions matching the prompt, a checkpoint and one more recent
  decision.
\<close>

definition authDecision :: mama_decision where
  "authDecision =
     \<lparr> dec_id = lit ''decision_auth_1'', topic = lit ''auth'',
       decision_text = lit ''Use JWT with refresh tokens'',
       reasoning = lit ''Stateless and easy to rotate'',
       outcome = Some (lit ''success''), pct = 87 \<rparr>"

definition sessionDecision :: mama_decision where
  "sessionDecision =
     \<lparr> dec_id = lit ''decision_auth_2'', topic = lit ''auth_sessions'',
       decision_text = lit ''Keep sessions in the database'',
       reasoning = lit ''builds_on: decision_auth_1'',
       outcome = None, pct = 61 \<rparr>"

definition cacheDecision :: mama_decision where
  "cacheDecision =
     \<lparr> dec_id = lit ''decision_cache_1'', topic = lit ''cache'',
       decision_text = lit ''Use an LRU cache'',
       reasoning = lit ''Bounded memory'',
       outcome = None, pct = 0 \<rparr>"

definition doneCheckpoint :: mama_checkpoint where
  "doneCheckpoint =
     \<lparr> cp_id = 7, summary = lit ''done'', next_steps = None,
       timestamp = lit ''1970-01-01T00:00:00.000Z'' \<rparr>"

definition recallWorld :: world where
  "recallWorld =
     exampleWorld
       \<lparr> suggest := (\<lambda>q n. Inr (Some [authDecision, sessionDecision])),
         loadCheckpoint := Inr (Some doneCheckpoint),
         listDecisions := (\<lambda>n. Inr [cacheDecision]) \<rparr>"

definition authEvent :: jsval where
  "authEvent = JObj [(lit ''prompt'', JStr (lit ''auth''))]"

definition authPromptEvent :: jsval where
  "authPromptEvent = JObj [(lit ''prompt'', JStr (lit ''auth strategy''))]"

section \<open>Truncation\<close>

lemma length_ellipsis: "length ellipsis = 3"
  by (simp add: ellipsis_def lit_def)

lemma truncateText_short: "length text \<le> maxLen \<Longrightarrow> truncateText text maxLen = text"
  by (simp add: truncateText_def)

lemma truncateText_long:
  "maxLen < length text \<Longrightarrow> truncateText text maxLen = take maxLen text @ ellipsis"
  by (simp add: truncateText_def)

lemma length_truncateText_le: "length (truncateText text maxLen) \<le> maxLen + 3"
  by (simp add: truncateText_def length_ellipsis)

text \<open>
  C9. For a text strictly longer than the limit \<open>L\<close>, \<open>truncateText(text, L)\<close> has length
  \<open>L + 3\<close>, consists of the first \<open>L\<close> code units of the text and the three-dot ellipsis, and
  truncating it again with the same limit gives the same string.
\<close>

theorem truncateText_idempotent:
  assumes "L < length text"
  shows "length (truncateText text L) = L + 3
         \<and> truncateText text L = take L text @ lit ''...''
         \<and> truncateText (truncateText text L) L = truncateText text L"
proof -
  from assms have len: "length (truncateText text L) = L + 3"
    by (simp add: truncateText_long length_ellipsis)
  from assms have shape: "truncateText text L = take L text @ lit ''...''"
    by (simp add: truncateText_long ellipsis_def)
  from assms have "L < length (take L text @ ellipsis)"
    by (simp add: length_ellipsis)
  then have "truncateText (take L text @ ellipsis) L = take L (take L text @ ellipsis) @ ellipsis"
    by (rule truncateText_long)
  with assms have idem: "truncateText (truncateText text L) L = truncateText text L"
    by (simp add: truncateText_long)
  from len shape idem show ?thesis
    by simp
qed

theorem truncateText_idempotent_witness:
  "5 < length (lit ''hello world'')
   \<and> length (truncateText (lit ''hello world'') 5) = 5 + 3
   \<and> truncateText (lit ''hello world'') 5 = lit ''hello...''
   \<and> truncateText (truncateText (lit ''hello world'') 5) 5 = lit ''hello...''"
proof -
  have h: "5 < length (lit ''hello world'')"
    by (simp add: lit_def)
  have e: "take 5 (lit ''hello world'') @ lit ''...'' = lit ''hello...''"
    by (simp add: lit_def)
  note t = truncateText_idempotent [OF h]
  have len: "length (truncateText (lit ''hello world'') 5) = 5 + 3"
    by (rule conjunct1 [OF t])
  have "truncateText (lit ''hello world'') 5 = take 5 (lit ''hello world'') @ lit ''...''"
    by (rule conjunct1 [OF conjunct2 [OF t]])
  then have shape: "truncateText (lit ''hello world'') 5 = lit ''hello...''"
    by (rule trans) (rule e)
  have "truncateText (truncateText (lit ''hello world'') 5) 5
        = truncateText (lit ''hello world'') 5"
    by (rule conjunct2 [OF conjunct2 [OF t]])
  then have idem: "truncateText (truncateText (lit ''hello world'') 5) 5 = lit ''hello...''"
    by (rule trans) (rule shape)
  from h len shape idem show ?thesis
    by blast
qed

section \<open>The initialisation gate\<close>

lemma initPart_logTo [simp]: "initPart (logTo e st) = initPart st"
  by (simp add: initPart_def logTo_def)

lemma resolveDbPath_nonempty: "resolveDbPath config w st \<noteq> []"
  by (auto simp: resolveDbPath_def truthy_def defaultDbPath_def lit_def split: option.splits)

lemma initMAMA_first_success:
  assumes "\<not> initialized st" and "initMAMA config w st = (Inr (), st')"
  shows "pathFixed (resolveDbPath config w st) st'"
  using assms resolveDbPath_nonempty [of config w st]
  by (auto simp: initMAMA_def Let_def pathFixed_def logTo_def split: sum.splits)

lemma resolveDbPath_fixed:
  assumes "pathFixed p st"
  shows "resolveDbPath config w st = (if truthy config then the_default [] config else p)"
  using assms by (simp add: resolveDbPath_def pathFixed_def truthy_def)

lemma initMAMA_fixed:
  assumes "pathFixed p st"
  shows "initMAMA config w st =
           (Inr (), if truthy config \<and> config \<noteq> Some p
                    then logTo (WarnDifferentDbPath (the_default [] config) p) st else st)"
  using assms resolveDbPath_fixed [OF assms, of config w]
  by (auto simp: initMAMA_def Let_def pathFixed_def truthy_def split: option.splits)

lemma pathFixed_cong:
  "initPart st' = initPart st \<Longrightarrow> pathFixed p st' = pathFixed p st"
  by (simp add: initPart_def pathFixed_def)

lemma initMAMA_fixed_initPart:
  assumes "pathFixed p st"
  shows "fst (initMAMA config w st) = Inr () \<and> initPart (snd (initMAMA config w st)) = initPart st"
  by (simp add: initMAMA_fixed [OF assms])

lemma initPart_captureText [simp]: "initPart (captureText uc st t) = initPart st"
  by (simp add: captureText_def Let_def initPart_def logTo_def)

lemma initPart_foldl_captureText [simp]:
  "initPart (foldl (captureText uc) st ts) = initPart st"
  by (induction ts arbitrary: st) simp_all

lemma initPart_session_start:
  "initPart (session_start config w st) = initPart (snd (initMAMA config w st))"
  by (cases "initMAMA config w st")
     (auto simp: session_start_def Let_def initPart_def logTo_def getMAMA_def
           split: sum.splits option.splits)

lemma initPart_injectContext [simp]:
  "initPart (snd (injectContext w sem cp recent st)) = initPart st"
  by (auto simp: injectContext_def Let_def initPart_def logTo_def split: sum.splits)

lemma initPart_before_agent_start:
  "initPart (snd (before_agent_start config ev w st)) = initPart (snd (initMAMA config w st))"
proof (cases "initMAMA config w st")
  case (Pair r st1)
  have *: "initPart (st1\<lparr>lastUserPrompt := x, console := y\<rparr>) = initPart st1" for x y
    by (simp add: initPart_def)
  have **: "initPart (st1\<lparr>lastUserPrompt := x\<rparr>) = initPart st1" for x
    by (simp add: initPart_def)
  show ?thesis using Pair
    by (auto simp: before_agent_start_def Let_def getMAMA_def * ** split: sum.splits)
qed

lemma initPart_agent_end:
  "initPart (agent_end config ev w st) = initPart (snd (initMAMA config w st))
   \<or> agent_end config ev w st = st"
  by (cases "initMAMA config w st")
     (auto simp: agent_end_def Let_def split: sum.splits)

lemma initPart_session_end:
  "initPart (session_end config w st) = initPart (snd (initMAMA config w st))"
  by (cases "initMAMA config w st")
     (auto simp: session_end_def Let_def getMAMA_def split: sum.splits)

lemma initPart_before_compaction:
  "initPart (before_compaction config w st) = initPart (snd (initMAMA config w st))"
proof (cases "initMAMA config w st")
  case (Pair r st1)
  have *: "initPart (st1\<lparr>lastCompactionAt := x\<rparr>) = initPart st1" for x
    by (simp add: initPart_def)
  have **: "initPart (st1\<lparr>lastCompactionAt := x, compactionOccurred := y\<rparr>) = initPart st1" for x y
    by (simp add: initPart_def)
  show ?thesis using Pair
    by (auto simp: before_compaction_def Let_def getMAMA_def * ** split: sum.splits)
qed

lemma initPart_after_compaction:
  "initPart (after_compaction config w st) = initPart (snd (initMAMA config w st))"
  by (cases "initMAMA config w st")
     (auto simp: after_compaction_def Let_def getMAMA_def split: sum.splits option.splits)

lemma initPart_handle:
  "initPart (handle config ev w st) = initPart (snd (initMAMA config w st))
   \<or> initPart (handle config ev w st) = initPart st"
proof (cases ev)
  case (AgentEnd x)
  with initPart_agent_end [of config x w st] show ?thesis by auto
qed (simp_all add: initPart_session_start initPart_before_agent_start initPart_session_end
        initPart_before_compaction initPart_after_compaction tool_execute_def)

lemma pathFixed_handle:
  assumes "pathFixed p st"
  shows "pathFixed p (handle config ev w st)"
proof -
  from initMAMA_fixed_initPart [OF assms, of config w]
  have "initPart (snd (initMAMA config w st)) = initPart st" by simp
  with initPart_handle [of config ev w st]
  have "initPart (handle config ev w st) = initPart st" by auto
  then have "pathFixed p (handle config ev w st) = pathFixed p st" by (rule pathFixed_cong)
  with assms show ?thesis by blast
qed

lemma sessionPart_logTo [simp]: "sessionPart (logTo e st) = sessionPart st"
  by (simp add: sessionPart_def logTo_def)

lemma sessionPart_initMAMA [simp]:
  "sessionPart (snd (initMAMA config w st)) = sessionPart st"
  by (auto simp: initMAMA_def Let_def sessionPart_def logTo_def split: sum.splits)

lemma initMAMA_result:
  "(fst (initMAMA config w st) = Inr () \<longrightarrow> initialized (snd (initMAMA config w st)))
   \<and> (fst (initMAMA config w st) \<noteq> Inr () \<longrightarrow> \<not> initialized st \<and> \<not> initialized (snd (initMAMA config w st)))"
  by (auto simp: initMAMA_def Let_def logTo_def split: sum.splits)

lemma pathFixed_run:
  "pathFixed p st \<Longrightarrow> pathFixed p (run steps st)"
proof (induction steps arbitrary: st)
  case Nil
  then show ?case by simp
next
  case (Cons a steps)
  obtain c e w where a: "a = (c, e, w)" by (cases a) auto
  from Cons.prems have "pathFixed p (handle c e w st)" by (rule pathFixed_handle)
  then show ?case using a Cons.IH by simp
qed

text \<open>
  C2. Take any call of \<open>initMAMA\<close> on an uninitialised state that succeeds, and let \<open>p\<close> be
  the path it resolved. After any further sequence of events and tool calls the gate is still
  closed on \<open>p\<close>, in \<open>initialDbPath\<close> and in the environment variable; and every later call
  of \<open>initMAMA\<close> returns at once, changing nothing, except that a call whose configuration
  names another path prints the warning with both paths first.
\<close>

theorem init_once:
  assumes "\<not> initialized st0"
      and "initMAMA config0 w0 st0 = (Inr (), st1)"
      and "st2 = run steps st1"
      and "p = resolveDbPath config0 w0 st0"
  shows "initialized st2 \<and> initialDbPath st2 = Some p \<and> envDbPath st2 = Some p
         \<and> initMAMA config w st2 =
             (Inr (), if truthy config \<and> config \<noteq> Some p
                      then logTo (WarnDifferentDbPath (the_default [] config) p) st2
                      else st2)
         \<and> resolveDbPath config w st2 = (if truthy config then the_default [] config else p)"
proof -
  from assms(1,2,4) have "pathFixed p st1"
    by (simp add: initMAMA_first_success)
  with assms(3) have fixed: "pathFixed p st2"
    by (simp add: pathFixed_run)
  then have "initialized st2 \<and> initialDbPath st2 = Some p \<and> envDbPath st2 = Some p"
    by (simp add: pathFixed_def)
  with initMAMA_fixed [OF fixed, of config w] resolveDbPath_fixed [OF fixed, of config w]
  show ?thesis by blast
qed

theorem init_once_witness:
  "initMAMA (Some (lit ''/b.db'')) exampleWorld
     (snd (initMAMA (Some (lit ''/a.db'')) exampleWorld (initialState None)))
   = (Inr (),
      logTo (WarnDifferentDbPath (lit ''/b.db'') (lit ''/a.db''))
        (snd (initMAMA (Some (lit ''/a.db'')) exampleWorld (initialState None))))
   \<and> initialDbPath (snd (initMAMA (Some (lit ''/a.db'')) exampleWorld (initialState None)))
     = Some (lit ''/a.db'')"
proof -
  have a: "\<not> initialized (initialState None)"
    by (simp add: initialState_def)
  have b: "initMAMA (Some (lit ''/a.db'')) exampleWorld (initialState None)
           = (Inr (), snd (initMAMA (Some (lit ''/a.db'')) exampleWorld (initialState None)))"
    by (simp add: initMAMA_def exampleWorld_def Let_def)
  have c: "snd (initMAMA (Some (lit ''/a.db'')) exampleWorld (initialState None))
           = run [] (snd (initMAMA (Some (lit ''/a.db'')) exampleWorld (initialState None)))"
    by simp
  have d: "lit ''/a.db'' = resolveDbPath (Some (lit ''/a.db'')) exampleWorld (initialState None)"
    by (simp add: resolveDbPath_def truthy_def lit_def)
  have e: "truthy (Some (lit ''/b.db'')) \<and> Some (lit ''/b.db'') \<noteq> Some (lit ''/a.db'')"
    by (simp add: truthy_def lit_def)
  from init_once [OF a b c d, of "Some (lit ''/b.db'')" exampleWorld] e show ?thesis
    by simp
qed

section \<open>Checkpoint staleness\<close>

lemma isRecentCheckpoint_iff:
  "parse ts = Some T \<Longrightarrow> isRecentCheckpoint parse N ts thr = (N - T < thr)"
  by (simp add: isRecentCheckpoint_def)

text \<open>
  C3, as stated, fails on the boundary: with the checkpoint at time 0, the clock at 300000
  and the threshold 300000 (which is at least the age), the check answers false.
\<close>

theorem staleness_boundary_counterexample:
  "(300000::int) \<ge> 300000 - 0
   \<and> \<not> isRecentCheckpoint (\<lambda>s. Some 0) 300000 (lit ''1970-01-01T00:00:00.000Z'') 300000"
  by (simp add: isRecentCheckpoint_def)

text \<open>
  C3, amended. For a checkpoint whose timestamp parses to the time \<open>T\<close> and a clock reading
  \<open>N\<close>, \<open>isRecentCheckpoint\<close> is true for every threshold strictly greater than the age
  \<open>N - T\<close> and false for every threshold less than or equal to it; \<open>session_end\<close> skips
  exactly when the age is below the default 300000 ms, so a checkpoint 600000 ms old is
  not skipped.
\<close>

theorem staleness_threshold:
  assumes "dateParse w (timestamp cp) = Some T"
  shows "(\<forall>thr. N - T < thr \<longrightarrow> isRecentCheckpoint (dateParse w) N (timestamp cp) thr)
         \<and> (\<forall>thr. thr \<le> N - T \<longrightarrow> \<not> isRecentCheckpoint (dateParse w) N (timestamp cp) thr)
         \<and> shouldSkip w (Some cp) = (clock w - T < 300000)
         \<and> (clock w - T = 600000 \<longrightarrow> \<not> shouldSkip w (Some cp))"
  using assms
  by (simp add: isRecentCheckpoint_iff shouldSkip_def defaultThresholdMs_def)

theorem staleness_threshold_witness:
  "isRecentCheckpoint (dateParse exampleWorld) 600000 (lit ''1970-01-01T00:00:00.000Z'') 1200000
   \<and> \<not> isRecentCheckpoint (dateParse exampleWorld) 600000 (lit ''1970-01-01T00:00:00.000Z'') 300000
   \<and> \<not> isRecentCheckpoint (dateParse exampleWorld) 600000 (lit ''1970-01-01T00:00:00.000Z'') 600000
   \<and> \<not> shouldSkip (exampleWorld\<lparr>clock := 600000\<rparr>)
          (Some \<lparr>cp_id = 1, summary = lit ''done'', next_steps = None,
                 timestamp = lit ''1970-01-01T00:00:00.000Z''\<rparr>)"
proof -
  let ?cp = "\<lparr>cp_id = 1, summary = lit ''done'', next_steps = None,
              timestamp = lit ''1970-01-01T00:00:00.000Z''\<rparr>"
  let ?w = "exampleWorld\<lparr>clock := 600000\<rparr>"
  have h: "dateParse ?w (timestamp ?cp) = Some 0"
    by (simp add: exampleWorld_def)
  have d: "dateParse ?w = dateParse exampleWorld" and t: "timestamp ?cp = lit ''1970-01-01T00:00:00.000Z''"
    and c: "clock ?w = 600000"
    by simp_all
  from staleness_threshold [OF h, of 600000] show ?thesis
    unfolding d t c by simp
qed

section \<open>The candidate list\<close>

lemma addCandidate_member: "List.member xs c \<Longrightarrow> addCandidate c xs = xs"
  by (simp add: addCandidate_def)

lemma addCandidate_new: "\<not> List.member xs c \<Longrightarrow> addCandidate c xs = take 3 (c # xs)"
  by (simp add: addCandidate_def)

lemma length_addCandidate: "length xs \<le> 3 \<Longrightarrow> length (addCandidate c xs) \<le> 3"
  by (simp add: addCandidate_def)

lemma distinct_addCandidate: "distinct xs \<Longrightarrow> distinct (addCandidate c xs)"
proof (cases "List.member xs c")
  case True
  then show "distinct xs \<Longrightarrow> ?thesis" by (simp add: addCandidate_def)
next
  case False
  assume "distinct xs"
  with False have "distinct (c # xs)" by simp
  then have "distinct (take 3 (c # xs))" by (rule distinct_take)
  with False show ?thesis by (simp add: addCandidate_def)
qed

lemma set_addCandidate: "set (addCandidate c xs) \<subseteq> insert c (set xs)"
  using set_take_subset [of 3 "c # xs"] by (auto simp: addCandidate_def)

lemma subseq_addCandidate: "subseq (addCandidate c xs) (c # xs)"
proof (cases "List.member xs c")
  case True
  have "subseq xs (c # xs)" by (rule list_emb_Cons) (rule subseq_order.refl)
  with True show ?thesis by (simp add: addCandidate_def)
next
  case False
  have "prefix (take 3 (c # xs)) (c # xs)"
    by (rule take_is_prefix)
  then have "subseq (take 3 (c # xs)) (c # xs)"
    by (rule prefix_imp_subseq)
  with False show ?thesis by (simp add: addCandidate_def)
qed

lemma addCandidates_Nil [simp]: "addCandidates [] xs = xs"
  by (simp add: addCandidates_def)

lemma addCandidates_Cons [simp]: "addCandidates (c # cs) xs = addCandidates cs (addCandidate c xs)"
  by (simp add: addCandidates_def)

lemma addCandidates_snoc [simp]: "addCandidates (cs @ [c]) xs = addCandidate c (addCandidates cs xs)"
  by (simp add: addCandidates_def)

lemma length_addCandidates: "length xs \<le> 3 \<Longrightarrow> length (addCandidates cs xs) \<le> 3"
  by (induction cs arbitrary: xs) (simp_all add: length_addCandidate)

lemma distinct_addCandidates: "distinct xs \<Longrightarrow> distinct (addCandidates cs xs)"
  by (induction cs arbitrary: xs) (simp_all add: distinct_addCandidate)

lemma subseq_addCandidates: "subseq (addCandidates cs xs) (rev cs @ xs)"
proof (induction cs arbitrary: xs)
  case Nil
  show ?case by simp
next
  case (Cons c cs)
  have "subseq (addCandidates cs (addCandidate c xs)) (rev cs @ addCandidate c xs)"
    by (rule Cons.IH)
  also have "subseq (rev cs @ addCandidate c xs) (rev cs @ c # xs)"
    by (simp only: subseq_append' subseq_addCandidate)
  finally show ?case by simp
qed

lemma set_addCandidates: "set (addCandidates cs xs) \<subseteq> set cs \<union> set xs"
proof (induction cs arbitrary: xs)
  case Nil
  show ?case by simp
next
  case (Cons c cs)
  from Cons.IH [of "addCandidate c xs"] set_addCandidate [of c xs] show ?case
    by auto
qed

lemma addCandidates_distinct_fresh:
  "distinct cs \<Longrightarrow> addCandidates cs [] = take 3 (rev cs)"
proof (induction cs rule: rev_induct)
  case Nil
  show ?case by simp
next
  case (snoc c cs)
  then have d: "distinct cs" and n: "c \<notin> set cs" by simp_all
  from set_addCandidates [of cs "[]"] n have "\<not> List.member (addCandidates cs []) c"
    by auto
  then have "addCandidates (cs @ [c]) [] = take 3 (c # addCandidates cs [])"
    by (simp add: addCandidate_new)
  also have "\<dots> = take 3 (c # take 3 (rev cs))"
    using snoc.IH d by simp
  also have "\<dots> = take 3 (rev (cs @ [c]))"
    by simp
  finally show ?case .
qed

section \<open>Reachable states\<close>

lemma candidates_captureText:
  assumes "length (lastAutoCaptureCandidates st) \<le> 3 \<and> distinct (lastAutoCaptureCandidates st)"
  shows "length (lastAutoCaptureCandidates (captureText uc st t)) \<le> 3
         \<and> distinct (lastAutoCaptureCandidates (captureText uc st t))"
  using assms
  by (simp add: captureText_def Let_def logTo_def length_addCandidate distinct_addCandidate)

lemma candidates_foldl_captureText:
  assumes "length (lastAutoCaptureCandidates st) \<le> 3 \<and> distinct (lastAutoCaptureCandidates st)"
  shows "length (lastAutoCaptureCandidates (foldl (captureText uc) st ts)) \<le> 3
         \<and> distinct (lastAutoCaptureCandidates (foldl (captureText uc) st ts))"
  using assms
proof (induction ts arbitrary: st)
  case Nil
  then show ?case by simp
next
  case (Cons t ts)
  from Cons.prems have "length (lastAutoCaptureCandidates (captureText uc st t)) \<le> 3
         \<and> distinct (lastAutoCaptureCandidates (captureText uc st t))"
    by (rule candidates_captureText)
  then show ?case using Cons.IH by simp
qed

lemma candidates_initMAMA [simp]:
  "lastAutoCaptureCandidates (snd (initMAMA config w st)) = lastAutoCaptureCandidates st"
  using sessionPart_initMAMA [of config w st] by (simp add: sessionPart_def)

lemma lastUserPrompt_initMAMA [simp]:
  "lastUserPrompt (snd (initMAMA config w st)) = lastUserPrompt st"
  using sessionPart_initMAMA [of config w st] by (simp add: sessionPart_def)

lemma compactionOccurred_initMAMA [simp]:
  "compactionOccurred (snd (initMAMA config w st)) = compactionOccurred st"
  using sessionPart_initMAMA [of config w st] by (simp add: sessionPart_def)

lemma candidates_session_start:
  "lastAutoCaptureCandidates (session_start config w st) = lastAutoCaptureCandidates st
   \<or> lastAutoCaptureCandidates (session_start config w st) = []"
  using candidates_initMAMA [of config w st]
  by (cases "initMAMA config w st")
     (auto simp: session_start_def Let_def logTo_def getMAMA_def
           split: sum.splits option.splits)

lemma sessionPart_injectContext:
  "lastAutoCaptureCandidates (snd (injectContext w sem cp recent st)) = lastAutoCaptureCandidates st
   \<and> lastUserPrompt (snd (injectContext w sem cp recent st)) = lastUserPrompt st"
  by (auto simp: injectContext_def Let_def logTo_def split: sum.splits)

lemma candidates_before_agent_start:
  "lastAutoCaptureCandidates (snd (before_agent_start config ev w st)) = lastAutoCaptureCandidates st"
  using candidates_initMAMA [of config w st]
  by (cases "initMAMA config w st")
     (auto simp: before_agent_start_def Let_def logTo_def getMAMA_def sessionPart_injectContext
           split: sum.splits)

lemma candidates_agent_end:
  assumes "length (lastAutoCaptureCandidates st) \<le> 3 \<and> distinct (lastAutoCaptureCandidates st)"
  shows "length (lastAutoCaptureCandidates (agent_end config ev w st)) \<le> 3
         \<and> distinct (lastAutoCaptureCandidates (agent_end config ev w st))"
proof (cases "initMAMA config w st")
  case (Pair r st1)
  with candidates_initMAMA [of config w st]
  have c: "lastAutoCaptureCandidates st1 = lastAutoCaptureCandidates st" by simp
  with assms have "length (lastAutoCaptureCandidates st1) \<le> 3 \<and> distinct (lastAutoCaptureCandidates st1)"
    by simp
  note f = candidates_foldl_captureText [OF this]
  show ?thesis using assms Pair c f
    by (auto simp: agent_end_def Let_def logTo_def split: sum.splits)
qed

lemma candidates_session_end:
  "lastAutoCaptureCandidates (session_end config w st) = lastAutoCaptureCandidates st"
  using candidates_initMAMA [of config w st]
  by (cases "initMAMA config w st")
     (auto simp: session_end_def Let_def logTo_def getMAMA_def split: sum.splits)

lemma candidates_before_compaction:
  "lastAutoCaptureCandidates (before_compaction config w st) = lastAutoCaptureCandidates st"
  using candidates_initMAMA [of config w st]
  by (cases "initMAMA config w st")
     (auto simp: before_compaction_def Let_def logTo_def getMAMA_def split: sum.splits)

lemma candidates_after_compaction:
  "lastAutoCaptureCandidates (after_compaction config w st) = lastAutoCaptureCandidates st"
  using candidates_initMAMA [of config w st]
  by (cases "initMAMA config w st")
     (auto simp: after_compaction_def Let_def logTo_def getMAMA_def split: sum.splits option.splits)

lemma candidates_handle:
  assumes "length (lastAutoCaptureCandidates st) \<le> 3 \<and> distinct (lastAutoCaptureCandidates st)"
  shows "length (lastAutoCaptureCandidates (handle config ev w st)) \<le> 3
         \<and> distinct (lastAutoCaptureCandidates (handle config ev w st))"
proof (cases ev)
  case SessionStart
  with candidates_session_start [of config w st] assms show ?thesis by auto
next
  case (AgentEnd x)
  with candidates_agent_end [OF assms, of config x w] show ?thesis by simp
qed (simp_all add: assms candidates_before_agent_start candidates_session_end
       candidates_before_compaction candidates_after_compaction tool_execute_def)

lemma lastUserPrompt_session_start:
  "lastUserPrompt (session_start config w st) = lastUserPrompt st
   \<or> initialized (session_start config w st)"
  using lastUserPrompt_initMAMA [of config w st] initMAMA_result [of config w st]
  by (cases "initMAMA config w st")
     (auto simp: session_start_def Let_def logTo_def getMAMA_def
           split: sum.splits option.splits)

lemma lastUserPrompt_before_agent_start:
  "lastUserPrompt (snd (before_agent_start config ev w st))
   = (if fst (initMAMA config w st) = Inr ()
      then (if eventPrompt ev \<noteq> [] then Some (truncateText (eventPrompt ev) 200) else None)
      else lastUserPrompt st)"
  using lastUserPrompt_initMAMA [of config w st]
  by (cases "initMAMA config w st")
     (auto simp: before_agent_start_def Let_def logTo_def getMAMA_def sessionPart_injectContext
           split: sum.splits)

lemma lastUserPrompt_agent_end:
  "lastUserPrompt (agent_end config ev w st) = lastUserPrompt st"
proof -
  have f: "lastUserPrompt (foldl (captureText uc) s ts) = lastUserPrompt s" for uc s ts
    by (induction ts arbitrary: s) (simp_all add: captureText_def Let_def logTo_def)
  show ?thesis
    using lastUserPrompt_initMAMA [of config w st]
    by (cases "initMAMA config w st")
       (auto simp: agent_end_def Let_def logTo_def f split: sum.splits)
qed

lemma lastUserPrompt_session_end:
  "lastUserPrompt (session_end config w st) = lastUserPrompt st"
  using lastUserPrompt_initMAMA [of config w st]
  by (cases "initMAMA config w st")
     (auto simp: session_end_def Let_def logTo_def getMAMA_def split: sum.splits)

lemma lastUserPrompt_before_compaction:
  "lastUserPrompt (before_compaction config w st) = lastUserPrompt st"
  using lastUserPrompt_initMAMA [of config w st]
  by (cases "initMAMA config w st")
     (auto simp: before_compaction_def Let_def logTo_def getMAMA_def split: sum.splits)

lemma lastUserPrompt_after_compaction:
  "lastUserPrompt (after_compaction config w st) = lastUserPrompt st"
  using lastUserPrompt_initMAMA [of config w st]
  by (cases "initMAMA config w st")
     (auto simp: after_compaction_def Let_def logTo_def getMAMA_def split: sum.splits option.splits)

lemma lastUserPrompt_handle:
  "lastUserPrompt (handle config ev w st) = lastUserPrompt st
   \<or> initialized (handle config ev w st)"
proof (cases ev)
  case SessionStart
  with lastUserPrompt_session_start [of config w st] show ?thesis by auto
next
  case (BeforeAgentStart x)
  show ?thesis
  proof (cases "fst (initMAMA config w st) = Inr ()")
    case True
    with initMAMA_result [of config w st] have "initialized (snd (initMAMA config w st))" by simp
    with initPart_before_agent_start [of config x w st] BeforeAgentStart show ?thesis
      by (simp add: initPart_def)
  next
    case False
    with lastUserPrompt_before_agent_start [of config x w st] BeforeAgentStart show ?thesis
      by simp
  qed
qed (simp_all add: lastUserPrompt_agent_end lastUserPrompt_session_end
       lastUserPrompt_before_compaction lastUserPrompt_after_compaction tool_execute_def)

lemma gate_handle:
  assumes "if initialized st then (\<exists>p. pathFixed p st) else lastUserPrompt st = None"
  shows "if initialized (handle config ev w st) then (\<exists>p. pathFixed p (handle config ev w st))
         else lastUserPrompt (handle config ev w st) = None"
proof (cases "initialized st")
  case True
  with assms obtain p where "pathFixed p st" by auto
  then have "pathFixed p (handle config ev w st)" by (rule pathFixed_handle)
  then show ?thesis by (auto simp: pathFixed_def)
next
  case False
  with assms have none: "lastUserPrompt st = None" by simp
  show ?thesis
  proof (cases "initialized (handle config ev w st)")
    case closed: True
    with False initPart_handle [of config ev w st]
    have ip: "initPart (handle config ev w st) = initPart (snd (initMAMA config w st))"
      by (auto simp: initPart_def)
    with closed have "initialized (snd (initMAMA config w st))" by (simp add: initPart_def)
    with initMAMA_result [of config w st] have "fst (initMAMA config w st) = Inr ()" by auto
    then have "initMAMA config w st = (Inr (), snd (initMAMA config w st))"
      by (cases "initMAMA config w st") simp
    with False have "pathFixed (resolveDbPath config w st) (snd (initMAMA config w st))"
      by (rule initMAMA_first_success)
    with pathFixed_cong [OF ip] have "pathFixed (resolveDbPath config w st) (handle config ev w st)"
      by blast
    with closed show ?thesis by auto
  next
    case opened: False
    with lastUserPrompt_handle [of config ev w st] none show ?thesis by auto
  qed
qed

lemma stateInv_initialState: "stateInv (initialState env)"
  by (simp add: stateInv_def initialState_def)

lemma stateInv_handle: "stateInv st \<Longrightarrow> stateInv (handle config ev w st)"
  unfolding stateInv_def using gate_handle [of st config ev w] candidates_handle [of st config ev w]
  by blast

lemma stateInv_run: "stateInv st \<Longrightarrow> stateInv (run steps st)"
proof (induction steps arbitrary: st)
  case Nil
  then show ?case by simp
next
  case (Cons a steps)
  obtain c e w where a: "a = (c, e, w)" by (cases a) auto
  from Cons.prems have "stateInv (handle c e w st)" by (rule stateInv_handle)
  then show ?case using a Cons.IH by simp
qed

lemma stateInv_reachable: "stateInv (run steps (initialState env))"
  by (rule stateInv_run) (rule stateInv_initialState)

lemma mama_after_init:
  assumes "stateInv st" and "fst (initMAMA config w st) = Inr ()"
  shows "mama (snd (initMAMA config w st))"
proof (cases "initialized st")
  case True
  with assms(1) obtain p where p: "pathFixed p st" by (auto simp: stateInv_def)
  from initMAMA_fixed_initPart [OF p, of config w] p show ?thesis
    by (simp add: initPart_def pathFixed_def)
next
  case False
  from assms(2) have "initMAMA config w st = (Inr (), snd (initMAMA config w st))"
    by (cases "initMAMA config w st") simp
  with False have "pathFixed (resolveDbPath config w st) (snd (initMAMA config w st))"
    by (rule initMAMA_first_success)
  then show ?thesis by (simp add: pathFixed_def)
qed

section \<open>A pre-compaction checkpoint that fails\<close>

text \<open>
  C10. In every state the plugin reaches, when \<open>initMAMA\<close> succeeds and \<open>saveCheckpoint\<close>
  throws, \<open>before_compaction\<close> still returns: the error is logged, \<open>lastCompactionAt\<close>
  holds the time read before the save, and \<open>compactionOccurred\<close> keeps the value it had,
  so from a state where it was false the recovery note is not armed. When the save succeeds
  the flag is set.
\<close>

theorem before_compaction_failed_save:
  assumes "st = run steps (initialState env)"
      and "fst (initMAMA config w st) = Inr ()"
      and "saveCheckpoint w
             (lit ''Pre-compaction checkpoint: '' @ isoString w (clock w)
              @ lit ''. Context will be compressed.'')
             (lit ''Resume after compaction - check previous context'') = r"
  shows "(\<forall>e. r = Inl e \<longrightarrow>
            lastCompactionAt (before_compaction config w st) = Some (isoString w (clock w))
            \<and> compactionOccurred (before_compaction config w st) = compactionOccurred st
            \<and> console (before_compaction config w st)
                = console (snd (initMAMA config w st)) @ [ErrBeforeCompaction e])
         \<and> (\<forall>n. r = Inr n \<longrightarrow>
            lastCompactionAt (before_compaction config w st) = Some (isoString w (clock w))
            \<and> compactionOccurred (before_compaction config w st))"
proof -
  have inv: "stateInv st"
    using assms(1) by (simp add: stateInv_reachable)
  obtain st1 where i: "initMAMA config w st = (Inr (), st1)"
    using assms(2) by (cases "initMAMA config w st") auto
  from sessionPart_initMAMA [of config w st] i
  have s: "compactionOccurred st1 = compactionOccurred st"
    by (simp add: sessionPart_def)
  from mama_after_init [OF inv assms(2)] i have m: "mama st1" by simp
  show ?thesis
    using assms(3) i s m
    by (cases r) (simp_all add: before_compaction_def Let_def getMAMA_def logTo_def)
qed

theorem before_compaction_failed_save_witness:
  "lastCompactionAt
     (before_compaction None (exampleWorld\<lparr>saveCheckpoint := (\<lambda>s n. Inl (lit ''disk full''))\<rparr>)
        (initialState None)) = Some (lit ''1970-01-01T00:00:00.000Z'')
   \<and> \<not> compactionOccurred
     (before_compaction None (exampleWorld\<lparr>saveCheckpoint := (\<lambda>s n. Inl (lit ''disk full''))\<rparr>)
        (initialState None))"
proof -
  let ?w = "exampleWorld\<lparr>saveCheckpoint := (\<lambda>s n. Inl (lit ''disk full''))\<rparr>"
  have a: "fst (initMAMA None ?w (initialState None)) = Inr ()"
    by (simp add: initMAMA_def exampleWorld_def initialState_def Let_def)
  have b: "initialState None = run [] (initialState None)"
    by simp
  have c: "saveCheckpoint ?w
             (lit ''Pre-compaction checkpoint: '' @ isoString ?w (clock ?w)
              @ lit ''. Context will be compressed.'')
             (lit ''Resume after compaction - check previous context'') = Inl (lit ''disk full'')"
    by simp
  have d: "isoString ?w (clock ?w) = lit ''1970-01-01T00:00:00.000Z''"
    by (simp add: exampleWorld_def)
  have e: "\<not> compactionOccurred (initialState None)"
    by (simp add: initialState_def)
  from before_compaction_failed_save [OF b a c] d e show ?thesis
    by simp
qed

section \<open>The auto-capture candidates\<close>

text \<open>
  C6. A candidate that is already in the list leaves the list as it is; a new one goes to
  the front and the list is cut to three. Hence a sequence of distinct insertions into the
  empty list keeps its last three, newest first; after any sequence of insertions the list
  has at most three entries, no entry twice, and its entries stand in the reverse of the
  order in which they were inserted; and in every state the plugin reaches the stored
  candidates are at most three and distinct. \<open>agent_end\<close> inserts the text truncated to 160.
\<close>

theorem candidates_newest_first:
  "(List.member xs c \<longrightarrow> addCandidate c xs = xs)
   \<and> (\<not> List.member xs c \<longrightarrow> addCandidate c xs = take 3 (c # xs))
   \<and> (distinct cs \<longrightarrow> addCandidates cs [] = take 3 (rev cs))
   \<and> length (addCandidates cs []) \<le> 3
   \<and> distinct (addCandidates cs [])
   \<and> subseq (addCandidates cs []) (rev cs)
   \<and> length (lastAutoCaptureCandidates (run steps (initialState env))) \<le> 3
   \<and> distinct (lastAutoCaptureCandidates (run steps (initialState env)))
   \<and> (isCandidateDecision uc t \<longrightarrow>
        lastAutoCaptureCandidates (captureText uc st t)
        = addCandidate (truncateText t 160) (lastAutoCaptureCandidates st))"
proof -
  have a: "List.member xs c \<longrightarrow> addCandidate c xs = xs"
    by (simp add: addCandidate_def)
  have b: "\<not> List.member xs c \<longrightarrow> addCandidate c xs = take 3 (c # xs)"
    by (simp add: addCandidate_def)
  have c: "distinct cs \<longrightarrow> addCandidates cs [] = take 3 (rev cs)"
    by (simp add: addCandidates_distinct_fresh)
  have d: "length (addCandidates cs []) \<le> 3"
    by (rule length_addCandidates) simp
  have e: "distinct (addCandidates cs [])"
    by (rule distinct_addCandidates) simp
  have f: "subseq (addCandidates cs []) (rev cs)"
    using subseq_addCandidates [of cs "[]"] by simp
  have g: "length (lastAutoCaptureCandidates (run steps (initialState env))) \<le> 3
           \<and> distinct (lastAutoCaptureCandidates (run steps (initialState env)))"
    using stateInv_reachable [of steps env] by (simp add: stateInv_def)
  have h: "isCandidateDecision uc t \<longrightarrow>
        lastAutoCaptureCandidates (captureText uc st t)
        = addCandidate (truncateText t 160) (lastAutoCaptureCandidates st)"
    by (simp add: captureText_def Let_def logTo_def)
  from a b c d e f g h show ?thesis by blast
qed

theorem candidates_newest_first_witness:
  "addCandidate (lit ''use A'') [lit ''use A''] = [lit ''use A'']
   \<and> addCandidates [lit ''use A'', lit ''use B'', lit ''use C'', lit ''use D''] []
     = [lit ''use D'', lit ''use C'', lit ''use B'']"
proof -
  have m: "List.member [lit ''use A''] (lit ''use A'')"
    by simp
  have d: "distinct [lit ''use A'', lit ''use B'', lit ''use C'', lit ''use D'']"
    by (simp add: lit_def)
  have r: "take 3 (rev [lit ''use A'', lit ''use B'', lit ''use C'', lit ''use D''])
           = [lit ''use D'', lit ''use C'', lit ''use B'']"
    by simp
  from candidates_newest_first
         [of "[lit ''use A'']" "lit ''use A''"
             "[lit ''use A'', lit ''use B'', lit ''use C'', lit ''use D'']"]
       m d r
  show ?thesis by simp
qed

section \<open>The stored prompt\<close>

text \<open>
  C8, as stated, fails: a prompt of 201 code units is stored as its first 200 code units
  and the ellipsis, 203 code units, more than 200.
\<close>

theorem lastUserPrompt_length_counterexample:
  "lastUserPrompt
     (snd (before_agent_start None (JObj [(lit ''prompt'', JStr (replicate 201 97))])
             exampleWorld (initialState None)))
   = Some (replicate 200 97 @ lit ''...'')
   \<and> length (replicate 200 97 @ lit ''...'') = 203"
proof -
  have i: "fst (initMAMA None exampleWorld (initialState None)) = Inr ()"
    by (simp add: initMAMA_def exampleWorld_def initialState_def Let_def)
  have p: "eventPrompt (JObj [(lit ''prompt'', JStr (replicate 201 97))]) = replicate 201 97"
    by (simp add: eventPrompt_def getStringField_def)
  have t: "truncateText (replicate 201 97) 200 = replicate 200 97 @ lit ''...''"
    by (simp add: truncateText_def ellipsis_def)
  have n: "replicate 201 (97::nat) \<noteq> []"
    by simp
  have l: "length (replicate 200 (97::nat) @ lit ''...'') = 203"
    by (simp add: lit_def)
  from i p t n l show ?thesis
    by (simp only: lastUserPrompt_before_agent_start if_True if_False not_False_eq_True simp_thms)
qed

text \<open>
  C8, amended. In every state the plugin reaches, after a \<open>before_agent_start\<close> event the
  stored \<open>lastUserPrompt\<close> is absent when the event carried no non-empty prompt string or
  the initialisation failed, and otherwise it is \<open>truncateText(prompt, 200)\<close>: the prompt
  itself when it has at most 200 code units, else its first 200 code units followed by the
  ellipsis, at most 203 code units in all.
\<close>

theorem lastUserPrompt_after_before_agent_start:
  assumes "st = run steps (initialState env)"
      and "st' = snd (before_agent_start config ev w st)"
  shows "lastUserPrompt st'
         = (if fst (initMAMA config w st) = Inr () \<and> eventPrompt ev \<noteq> []
            then Some (truncateText (eventPrompt ev) 200) else None)
         \<and> length (truncateText (eventPrompt ev) 200) \<le> 203
         \<and> take 200 (truncateText (eventPrompt ev) 200) = take 200 (eventPrompt ev)
         \<and> (length (eventPrompt ev) \<le> 200 \<longrightarrow> truncateText (eventPrompt ev) 200 = eventPrompt ev)"
proof -
  have inv: "stateInv st"
    using assms(1) by (simp add: stateInv_reachable)
  have "fst (initMAMA config w st) \<noteq> Inr () \<longrightarrow> lastUserPrompt st = None"
    using inv initMAMA_result [of config w st] by (auto simp: stateInv_def)
  then have a: "lastUserPrompt st'
         = (if fst (initMAMA config w st) = Inr () \<and> eventPrompt ev \<noteq> []
            then Some (truncateText (eventPrompt ev) 200) else None)"
    using assms(2) by (simp add: lastUserPrompt_before_agent_start)
  have b: "length (truncateText (eventPrompt ev) 200) \<le> 203"
    using length_truncateText_le [of "eventPrompt ev" 200] by simp
  have c: "take 200 (truncateText (eventPrompt ev) 200) = take 200 (eventPrompt ev)"
    by (simp add: truncateText_def)
  have d: "length (eventPrompt ev) \<le> 200 \<longrightarrow> truncateText (eventPrompt ev) 200 = eventPrompt ev"
    by (simp add: truncateText_def)
  from a b c d show ?thesis by blast
qed

theorem lastUserPrompt_after_before_agent_start_witness:
  "lastUserPrompt
     (snd (before_agent_start None (JObj [(lit ''prompt'', JStr (lit ''which database did we pick?''))])
             exampleWorld (initialState None)))
   = Some (lit ''which database did we pick?'')"
proof -
  let ?ev = "JObj [(lit ''prompt'', JStr (lit ''which database did we pick?''))]"
  have r: "initialState None = run [] (initialState None)"
    by simp
  have i: "fst (initMAMA None exampleWorld (initialState None)) = Inr ()"
    by (simp add: initMAMA_def exampleWorld_def initialState_def Let_def)
  have p: "eventPrompt ?ev = lit ''which database did we pick?''"
    by (simp add: eventPrompt_def getStringField_def)
  have n: "lit ''which database did we pick?'' \<noteq> []"
    by (simp add: lit_def)
  have l: "length (lit ''which database did we pick?'') \<le> 200"
    by (simp add: lit_def)
  from lastUserPrompt_after_before_agent_start [OF r refl, of None ?ev exampleWorld] i p n l
  show ?thesis by simp
qed

section \<open>Auto-recall\<close>

lemma injectContext_None:
  "checkpoint = None \<Longrightarrow> semantic = [] \<Longrightarrow> recent = []
   \<Longrightarrow> fst (injectContext w semantic checkpoint recent st) = None"
  by (simp add: injectContext_def Let_def)

lemma injectContext_Some:
  assumes "fst (injectContext w semantic checkpoint recent st) = Some content"
  shows "(checkpoint \<noteq> None \<or> semantic \<noteq> [] \<or> recent \<noteq> [])
         \<and> renderContext w semantic checkpoint recent
               (if compactionOccurred st then compactionNoteText else []) = Inr content"
  using assms by (auto simp: injectContext_def Let_def split: sum.splits if_splits)

text \<open>What the body of \<open>before_agent_start\<close> returns, in terms of what it loaded.\<close>

lemma before_agent_start_Some:
  assumes "fst (before_agent_start config ev w st) = Some content"
  shows "\<exists>checkpoint recent note.
           loadCheckpoint w = Inr checkpoint
           \<and> loadRecent w (semanticResults w (eventPrompt ev)) = Inr recent
           \<and> (checkpoint \<noteq> None \<or> semanticResults w (eventPrompt ev) \<noteq> [] \<or> recent \<noteq> [])
           \<and> (note = [] \<or> note = compactionNoteText)
           \<and> renderContext w (semanticResults w (eventPrompt ev)) checkpoint recent note
               = Inr content"
proof (cases "initMAMA config w st")
  case (Pair r st1)
  show ?thesis
  proof (cases r)
    case (Inl e)
    with Pair assms show ?thesis by (simp add: before_agent_start_def)
  next
    case (Inr u)
    let ?p = "eventPrompt ev"
    let ?st2 = "st1\<lparr>lastUserPrompt := (if ?p \<noteq> [] then Some (truncateText ?p 200) else None)\<rparr>"
    let ?st3 = "?st2\<lparr>console := console ?st2 @ snd (semanticSearch w ?p)\<rparr>"
    from Pair Inr assms obtain checkpoint recent where
      cp: "loadCheckpoint w = Inr checkpoint" and
      rc: "loadRecent w (semanticResults w ?p) = Inr recent" and
      ic: "fst (injectContext w (semanticResults w ?p) checkpoint recent ?st3) = Some content"
      by (auto simp: before_agent_start_def Let_def split: sum.splits)
    from injectContext_Some [OF ic] cp rc show ?thesis
      by (intro exI [of _ checkpoint] exI [of _ recent]
            exI [of _ "if compactionOccurred ?st3 then compactionNoteText else []"]) auto
  qed
qed

lemma before_agent_start_nothing:
  assumes "\<not> (\<exists>cp. loadCheckpoint w = Inr (Some cp))"
      and "semanticResults w (eventPrompt ev) = []"
      and "\<not> (\<exists>ds. listDecisions w 3 = Inr ds \<and> ds \<noteq> [])"
  shows "fst (before_agent_start config ev w st) = None"
proof (rule ccontr)
  assume "fst (before_agent_start config ev w st) \<noteq> None"
  then obtain content where "fst (before_agent_start config ev w st) = Some content" by auto
  from before_agent_start_Some [OF this] assms show False
    by (auto simp: loadRecent_def)
qed

lemma renderContext_shape:
  assumes "renderContext w semantic checkpoint recent note = Inr content"
  shows "\<exists>cpText.
           (case checkpoint of None \<Rightarrow> cpText = [] | Some cp \<Rightarrow> checkpointSection w cp = Inr cpText)
           \<and> content = contextHeader
                       @ (if semantic \<noteq> [] then relevantSection semantic else [])
                       @ cpText
                       @ (if recent \<noteq> [] then recentSection recent else [])
                       @ note @ contextFooter"
  using assms
  by (cases checkpoint) (auto simp: renderContext_def Let_def split: sum.splits)

text \<open>
  C1. Every invocation of the \<open>before_agent_start\<close> handler completes, with a text block
  or with nothing. It returns a block only if the checkpoint it loaded is present, or the
  list of semantic results is not empty, or the list of recent decisions it loaded is not
  empty; when the checkpoint is absent and both lists are empty it returns nothing.
\<close>

theorem recall_only_with_memories:
  "(fst (before_agent_start config ev w st) \<noteq> None \<longrightarrow>
      (\<exists>cp. loadCheckpoint w = Inr (Some cp))
      \<or> semanticResults w (eventPrompt ev) \<noteq> []
      \<or> (\<exists>recent. loadRecent w (semanticResults w (eventPrompt ev)) = Inr recent \<and> recent \<noteq> []))
   \<and> (loadCheckpoint w = Inr None \<and> semanticResults w (eventPrompt ev) = []
        \<and> loadRecent w (semanticResults w (eventPrompt ev)) = Inr []
      \<longrightarrow> fst (before_agent_start config ev w st) = None)"
proof -
  have a: "(\<exists>cp. loadCheckpoint w = Inr (Some cp))
      \<or> semanticResults w (eventPrompt ev) \<noteq> []
      \<or> (\<exists>recent. loadRecent w (semanticResults w (eventPrompt ev)) = Inr recent \<and> recent \<noteq> [])"
    if "fst (before_agent_start config ev w st) = Some content" for content
    using before_agent_start_Some [OF that] by auto
  have b: "fst (before_agent_start config ev w st) = None"
    if "loadCheckpoint w = Inr None" "semanticResults w (eventPrompt ev) = []"
       "loadRecent w (semanticResults w (eventPrompt ev)) = Inr []"
    using that by (intro before_agent_start_nothing) (auto simp: loadRecent_def)
  from a b show ?thesis by auto
qed

theorem recall_only_with_memories_witness:
  "fst (before_agent_start None authEvent
          (exampleWorld\<lparr>loadCheckpoint := Inr (Some doneCheckpoint)\<rparr>) (initialState None)) \<noteq> None
   \<and> loadCheckpoint (exampleWorld\<lparr>loadCheckpoint := Inr (Some doneCheckpoint)\<rparr>)
     = Inr (Some doneCheckpoint)
   \<and> fst (before_agent_start None authEvent exampleWorld (initialState None)) = None"
proof -
  let ?w = "exampleWorld\<lparr>loadCheckpoint := Inr (Some doneCheckpoint)\<rparr>"
  have i: "initMAMA None ?w (initialState None)
           = (Inr (), snd (initMAMA None ?w (initialState None)))"
    by (simp add: initMAMA_def exampleWorld_def initialState_def Let_def)
  have m: "mama (snd (initMAMA None ?w (initialState None)))"
    by (simp add: initMAMA_def exampleWorld_def initialState_def Let_def logTo_def)
  have s: "semanticResults ?w (eventPrompt authEvent) = []"
    by (simp add: semanticResults_def semanticSearch_def eventPrompt_def authEvent_def
          getStringField_def lit_def)
  have c: "checkpointSection ?w doneCheckpoint \<noteq> Inl e" for e
    by (simp add: checkpointSection_def doneCheckpoint_def exampleWorld_def)
  have some: "fst (before_agent_start None authEvent ?w (initialState None)) \<noteq> None"
    using m s c
    by (subst before_agent_start_def, subst i)
       (auto simp: Let_def getMAMA_def loadRecent_def exampleWorld_def injectContext_def
          renderContext_def split: sum.splits)
  have h1: "loadCheckpoint exampleWorld = Inr None"
    and h2: "semanticResults exampleWorld (eventPrompt authEvent) = []"
    and h3: "loadRecent exampleWorld (semanticResults exampleWorld (eventPrompt authEvent)) = Inr []"
    by (simp_all add: semanticResults_def semanticSearch_def eventPrompt_def authEvent_def
          getStringField_def lit_def loadRecent_def exampleWorld_def)
  from recall_only_with_memories [of None authEvent exampleWorld "initialState None"] h1 h2 h3
  have none: "fst (before_agent_start None authEvent exampleWorld (initialState None)) = None"
    by blast
  from recall_only_with_memories [of None authEvent ?w "initialState None"] some
  have "(\<exists>cp. loadCheckpoint ?w = Inr (Some cp))
      \<or> semanticResults ?w (eventPrompt authEvent) \<noteq> []
      \<or> (\<exists>recent. loadRecent ?w (semanticResults ?w (eventPrompt authEvent)) = Inr recent \<and> recent \<noteq> [])"
    by blast
  have "loadCheckpoint ?w = Inr (Some doneCheckpoint)"
    by simp
  with some none show ?thesis by blast
qed

text \<open>
  C4. Whenever the handler returns a block, the block is the header, the section of the
  semantic matches if there are any, the checkpoint section if a checkpoint was loaded,
  the section of the recent decisions if that list is not empty, the compaction note if
  the flag was set, and the footer. With a non-empty list of semantic matches the list of
  recent decisions is empty whatever the backend would have listed, so the block has no
  section of recent decisions; a block that has one has no section of semantic matches.
\<close>

theorem no_recent_section_with_semantic_matches:
  assumes "fst (before_agent_start config ev w st) = Some content"
      and "semantic = semanticResults w (eventPrompt ev)"
  shows "\<exists>checkpoint recent cpText note.
           loadCheckpoint w = Inr checkpoint
           \<and> loadRecent w semantic = Inr recent
           \<and> (case checkpoint of None \<Rightarrow> cpText = []
               | Some cp \<Rightarrow> checkpointSection w cp = Inr cpText)
           \<and> (note = [] \<or> note = compactionNoteText)
           \<and> content = contextHeader
                       @ (if semantic \<noteq> [] then relevantSection semantic else [])
                       @ cpText
                       @ (if recent \<noteq> [] then recentSection recent else [])
                       @ note @ contextFooter
           \<and> (semantic \<noteq> [] \<longrightarrow>
                recent = []
                \<and> content = contextHeader @ relevantSection semantic @ cpText @ note
                            @ contextFooter)
           \<and> (recent \<noteq> [] \<longrightarrow>
                semantic = [] \<and> listDecisions w 3 = Inr recent
                \<and> content = contextHeader @ cpText @ recentSection recent @ note
                            @ contextFooter)"
proof -
  from before_agent_start_Some [OF assms(1)] assms(2)
  obtain checkpoint recent cnote where
    cp: "loadCheckpoint w = Inr checkpoint" and
    rc: "loadRecent w semantic = Inr recent" and
    nt: "cnote = [] \<or> cnote = compactionNoteText" and
    rn: "renderContext w semantic checkpoint recent cnote = Inr content"
    by auto
  from renderContext_shape [OF rn] obtain cpText where
    ct: "case checkpoint of None \<Rightarrow> cpText = [] | Some cp \<Rightarrow> checkpointSection w cp = Inr cpText"
    and sh: "content = contextHeader
                       @ (if semantic \<noteq> [] then relevantSection semantic else [])
                       @ cpText
                       @ (if recent \<noteq> [] then recentSection recent else [])
                       @ cnote @ contextFooter"
    by auto
  from rc have excl: "semantic \<noteq> [] \<longrightarrow> recent = []"
    by (auto simp: loadRecent_def split: if_splits)
  from rc have lst: "recent \<noteq> [] \<longrightarrow> listDecisions w 3 = Inr recent"
    by (auto simp: loadRecent_def split: if_splits)
  from excl sh have s1: "semantic \<noteq> [] \<longrightarrow>
                recent = []
                \<and> content = contextHeader @ relevantSection semantic @ cpText @ cnote
                            @ contextFooter"
    by simp
  from excl lst sh have s2: "recent \<noteq> [] \<longrightarrow>
                semantic = [] \<and> listDecisions w 3 = Inr recent
                \<and> content = contextHeader @ cpText @ recentSection recent @ cnote
                            @ contextFooter"
    by auto
  from cp rc ct nt sh s1 s2 show ?thesis
    by blast
qed



theorem no_recent_section_with_semantic_matches_witness:
  "\<exists>content cpText cnote.
     fst (before_agent_start None authPromptEvent recallWorld (initialState None)) = Some content
     \<and> content = contextHeader @ relevantSection [authDecision, sessionDecision] @ cpText
                 @ cnote @ contextFooter
     \<and> checkpointSection recallWorld doneCheckpoint = Inr cpText
     \<and> loadCheckpoint recallWorld = Inr (Some doneCheckpoint)
     \<and> listDecisions recallWorld 3 = Inr [cacheDecision]"
proof -
  let ?st = "initialState None"
  have i: "initMAMA None recallWorld ?st = (Inr (), snd (initMAMA None recallWorld ?st))"
    by (simp add: initMAMA_def recallWorld_def exampleWorld_def initialState_def Let_def)
  have m: "mama (snd (initMAMA None recallWorld ?st))"
    by (simp add: initMAMA_def recallWorld_def exampleWorld_def initialState_def Let_def logTo_def)
  have p: "eventPrompt authPromptEvent = lit ''auth strategy''"
    by (simp add: eventPrompt_def authPromptEvent_def getStringField_def)
  have s: "semanticResults recallWorld (eventPrompt authPromptEvent)
           = [authDecision, sessionDecision]"
    unfolding p by (simp add: semanticResults_def semanticSearch_def recallWorld_def lit_def)
  have c: "checkpointSection recallWorld doneCheckpoint \<noteq> Inl e" for e
    by (simp add: checkpointSection_def doneCheckpoint_def recallWorld_def exampleWorld_def)
  have l: "loadCheckpoint recallWorld = Inr (Some doneCheckpoint)"
    and r: "listDecisions recallWorld 3 = Inr [cacheDecision]"
    by (simp_all add: recallWorld_def)
  have "fst (before_agent_start None authPromptEvent recallWorld ?st) \<noteq> None"
    using m s c l
    by (subst before_agent_start_def, subst i)
       (auto simp: Let_def getMAMA_def loadRecent_def injectContext_def
          renderContext_def split: sum.splits)
  then obtain content where
    h: "fst (before_agent_start None authPromptEvent recallWorld ?st) = Some content"
    by auto
  from no_recent_section_with_semantic_matches [OF h s [symmetric]] l
  obtain cpText cnote where
    "checkpointSection recallWorld doneCheckpoint = Inr cpText"
    "content = contextHeader @ relevantSection [authDecision, sessionDecision] @ cpText
               @ cnote @ contextFooter"
    by auto
  with h l r show ?thesis by blast
qed

section \<open>Decision detection\<close>

lemma includesStr_iff: "includesStr s sub \<longleftrightarrow> (\<exists>pre post. s = pre @ sub @ post)"
proof (induction s)
  case Nil
  show ?case by auto
next
  case (Cons c cs)
  show ?case
  proof
    assume "includesStr (c # cs) sub"
    then consider "prefix sub (c # cs)" | "includesStr cs sub" by auto
    then show "\<exists>pre post. c # cs = pre @ sub @ post"
    proof cases
      case 1
      then obtain post where "c # cs = sub @ post" by (auto simp: prefix_def)
      then have "c # cs = [] @ sub @ post" by simp
      then show ?thesis by blast
    next
      case 2
      with Cons.IH obtain pre post where "cs = pre @ sub @ post" by auto
      then have "c # cs = (c # pre) @ sub @ post" by simp
      then show ?thesis by blast
    qed
  next
    assume "\<exists>pre post. c # cs = pre @ sub @ post"
    then obtain pre post where e: "c # cs = pre @ sub @ post" by auto
    show "includesStr (c # cs) sub"
    proof (cases pre)
      case Nil
      with e have "prefix sub (c # cs)" by (simp add: prefix_def)
      then show ?thesis by simp
    next
      case (Cons p ps)
      with e have "cs = ps @ sub @ post" by simp
      with Cons.IH have "includesStr cs sub" by blast
      then show ?thesis by simp
    qed
  qed
qed

lemma includesStr_set: "includesStr s sub \<Longrightarrow> set sub \<subseteq> set s"
  by (auto simp: includesStr_iff)

text \<open>
  C5, as stated, fails at the upper boundary: a text of exactly 500 code units that matches
  the first pattern (it contains \<open>decided\<close>) and contains the marker of an injected block
  is not a candidate.
\<close>

theorem decision_boundary_counterexample:
  "isDecision (\<lambda>c. c) (lit ''<relevant-memories>decided'' @ replicate 474 97)
   \<and> length (lit ''<relevant-memories>decided'' @ replicate 474 97) = 500
   \<and> \<not> isCandidateDecision (\<lambda>c. c) (lit ''<relevant-memories>decided'' @ replicate 474 97)"
proof -
  let ?t = "lit ''<relevant-memories>decided'' @ replicate 474 97"
  have d: "isDecision (\<lambda>c. c) ?t"
    by (simp add: lit_def isDecision_def decisionPattern1_def ciIncludes_def
          canonicalize_def asciiUpper_def)
  have l: "length ?t = 500"
    by (simp add: lit_def)
  have m: "includesStr ?t (lit ''<relevant-memories>'')"
    by (simp add: lit_def)
  from l m have "\<not> isCandidateDecision (\<lambda>c. c) ?t"
    by (simp only: isCandidateDecision_def if_True if_False simp_thms split: if_split)
  with d l show ?thesis by blast
qed

text \<open>
  C5, amended. A text that matches one of the decision patterns is rejected when it has
  fewer than 20 code units (19, say) or more than 500 (501, say). With 20 to 500 code
  units, 500 included, it is accepted exactly when it does not contain the marker
  \<open><relevant-memories>\<close> and does not both start with \<open><\<close> and contain \<open></\<close>.
\<close>

theorem decision_length_bounds:
  assumes "isDecision uc text"
  shows "(length text < 20 \<longrightarrow> \<not> isCandidateDecision uc text)
         \<and> (length text > 500 \<longrightarrow> \<not> isCandidateDecision uc text)
         \<and> (20 \<le> length text \<and> length text \<le> 500 \<longrightarrow>
              isCandidateDecision uc text
              = (\<not> includesStr text (lit ''<relevant-memories>'')
                 \<and> \<not> (startsWith text (lit ''<'') \<and> includesStr text (lit ''</''))))"
  using assms by (auto simp: isCandidateDecision_def)

theorem decision_length_bounds_witness:
  "\<not> isCandidateDecision (\<lambda>c. c) (lit ''decided to use JWT!'')
   \<and> isCandidateDecision (\<lambda>c. c) (lit ''We decided to go with PostgreSQL.'' @ replicate 467 97)
   \<and> \<not> isCandidateDecision (\<lambda>c. c) (lit ''We decided to go with PostgreSQL.'' @ replicate 468 97)"
proof -
  let ?short = "lit ''decided to use JWT!''"
  let ?edge = "lit ''We decided to go with PostgreSQL.'' @ replicate 467 97"
  let ?long = "lit ''We decided to go with PostgreSQL.'' @ replicate 468 97"
  have d1: "isDecision (\<lambda>c. c) ?short" and d2: "isDecision (\<lambda>c. c) ?edge"
    and d3: "isDecision (\<lambda>c. c) ?long"
    by (simp_all add: lit_def isDecision_def decisionPattern1_def ciIncludes_def
          canonicalize_def asciiUpper_def)
  have l1: "length ?short = 19" and l2: "length ?edge = 500" and l3: "length ?long = 501"
    by (simp_all add: lit_def)
  have "60 \<notin> set ?edge"
    by (simp add: lit_def)
  then have "\<not> set (lit ''<relevant-memories>'') \<subseteq> set ?edge"
    by (auto simp: lit_def)
  then have n1: "\<not> includesStr ?edge (lit ''<relevant-memories>'')"
    using includesStr_set by blast
  have n2: "\<not> startsWith ?edge (lit ''<'')"
    by (simp add: startsWith_def lit_def)
  from decision_length_bounds [OF d1] l1 have r1: "\<not> isCandidateDecision (\<lambda>c. c) ?short"
    by simp
  from decision_length_bounds [OF d2] l2 n1 n2 have r2: "isCandidateDecision (\<lambda>c. c) ?edge"
    by simp
  from decision_length_bounds [OF d3] l3 have r3: "\<not> isCandidateDecision (\<lambda>c. c) ?long"
    by simp
  from r1 r2 r3 show ?thesis by blast
qed

section \<open>Link annotations\<close>

lemma isWordDash_not_isSpace: "isWordDash c \<Longrightarrow> \<not> isSpace c"
  by (auto simp: isWordDash_def isSpace_def)

lemma takeWhile_exact:
  assumes "\<forall>x\<in>set xs. P x" and "ys = [] \<or> \<not> P (hd ys)"
  shows "takeWhile P (xs @ ys) = xs" and "dropWhile P (xs @ ys) = ys"
proof -
  from assms(2) have t: "takeWhile P ys = []" and d: "dropWhile P ys = ys"
    by (cases ys; auto)+
  from assms(1) t show "takeWhile P (xs @ ys) = xs"
    by (simp add: takeWhile_append2)
  from assms(1) d show "dropWhile P (xs @ ys) = ys"
    by (simp add: dropWhile_append2)
qed

lemma ciPrefix_append:
  "map asciiUpper kw = map asciiUpper p \<Longrightarrow> ciPrefix p (kw @ rest)"
  by (simp add: ciPrefix_def)

lemma keywordAt_builds_on:
  assumes "map asciiUpper kw = map asciiUpper (lit ''builds_on'')"
  shows "keywordAt (kw @ rest) = Some (length kw)"
proof -
  from assms have "length (map asciiUpper kw) = length (map asciiUpper (lit ''builds_on''))"
    by (rule arg_cong)
  then have "length kw = 9" by (simp add: lit_def)
  with ciPrefix_append [OF assms, of rest] show ?thesis
    by (simp add: keywordAt_def)
qed

lemma keywordAt_debates:
  assumes "map asciiUpper kw = map asciiUpper (lit ''debates'')"
  shows "keywordAt (kw @ rest) = Some (length kw)"
proof -
  from assms have "length (map asciiUpper kw) = length (map asciiUpper (lit ''debates''))"
    by (rule arg_cong)
  then have l: "length kw = 7" by (simp add: lit_def)
  then obtain k ks where k: "kw = k # ks" by (cases kw) auto
  with assms have "asciiUpper k = 68"
    by (simp add: lit_def asciiUpper_def)
  with k have "\<not> ciPrefix (lit ''builds_on'') (kw @ rest)"
    by (simp add: ciPrefix_def lit_def asciiUpper_def)
  with ciPrefix_append [OF assms, of rest] l show ?thesis
    by (simp add: keywordAt_def)
qed

lemma singleLinkAt_annotation:
  assumes "map asciiUpper kw = map asciiUpper (lit ''builds_on'')
           \<or> map asciiUpper kw = map asciiUpper (lit ''debates'')"
      and "\<forall>c\<in>set ws. isSpace c"
      and "ident \<noteq> []" and "\<forall>c\<in>set ident. isWordDash c"
      and "rest = [] \<or> \<not> isWordDash (hd rest)"
  shows "singleLinkAt (kw @ [58] @ ws @ ident @ rest)
         = Some (length (kw @ [58] @ ws @ ident))"
proof -
  from assms(1) have k: "keywordAt (kw @ [58] @ ws @ ident @ rest) = Some (length kw)"
    using keywordAt_builds_on keywordAt_debates by blast
  from assms(3,4) have "\<not> isSpace (hd (ident @ rest))"
    by (cases ident) (auto simp: isWordDash_not_isSpace)
  with assms(3) have b: "ident @ rest = [] \<or> \<not> isSpace (hd (ident @ rest))"
    by simp
  from takeWhile_exact [OF assms(2) b]
  have w: "takeWhile isSpace (ws @ ident @ rest) = ws"
    and d: "dropWhile isSpace (ws @ ident @ rest) = ident @ rest"
    by simp_all
  from takeWhile_exact(1) [OF assms(4,5)]
  have i: "takeWhile isWordDash (ident @ rest) = ident" .
  from k w d i assms(3) show ?thesis
    by (simp add: singleLinkAt_def Let_def)
qed

lemma linkMatch_skip:
  assumes "\<forall>i<length pre. linkAt (drop i (pre @ s)) = None"
  shows "linkMatch (pre @ s) = linkMatch s"
  using assms
proof (induction pre)
  case Nil
  show ?case by simp
next
  case (Cons p pre)
  from Cons.prems have "linkAt (drop 0 ((p # pre) @ s)) = None" by blast
  then have h: "linkAt (p # pre @ s) = None" by simp
  have "\<forall>i<length pre. linkAt (drop i (pre @ s)) = None"
  proof (intro allI impI)
    fix i assume "i < length pre"
    then have "Suc i < length (p # pre)" by simp
    with Cons.prems have "linkAt (drop (Suc i) ((p # pre) @ s)) = None" by blast
    then show "linkAt (drop i (pre @ s)) = None" by simp
  qed
  with Cons.IH have "linkMatch (pre @ s) = linkMatch s" by blast
  with h show ?case by simp
qed

lemma noLinkBefore_all:
  "noLinkBefore pre s \<Longrightarrow> \<forall>i<length pre. linkAt (drop i (pre @ s)) = None"
proof (induction pre)
  case Nil
  show ?case by simp
next
  case (Cons p pre)
  then have h: "linkAt (p # pre @ s) = None"
    and t: "\<forall>i<length pre. linkAt (drop i (pre @ s)) = None"
    by simp_all
  show ?case
  proof (intro allI impI)
    fix i assume "i < length (p # pre)"
    then show "linkAt (drop i ((p # pre) @ s)) = None"
      using h t by (cases i) simp_all
  qed
qed

lemma linkMatch_at:
  assumes "linkAt s = Some n" and "s \<noteq> []"
  shows "linkMatch s = Some (take n s)"
  using assms by (cases s) simp_all

lemma includesStr_middle: "includesStr (pre @ sub @ post) sub"
  by (auto simp: includesStr_iff)


text \<open>
  C7. Let the reasoning be a text in front, then an annotation made of the keyword
  \<open>builds_on\<close> or \<open>debates\<close> (in any case), a colon, white space and an identifier of
  letters, digits, underscores and hyphens, then a rest that is empty or begins with a code
  unit that cannot continue the identifier (trailing prose after a space, say); and let no
  link annotation start in the text in front. Then the match is exactly the annotation,
  without anything of the rest; \<open>formatReasoning\<close> returns the truncated reasoning alone when
  that already contains the annotation, and otherwise the truncated reasoning followed by
  the link prefix and the annotation; a reasoning within the budget is returned unchanged.
\<close>

theorem formatReasoning_link_annotation:
  assumes "map asciiUpper kw = map asciiUpper (lit ''builds_on'')
           \<or> map asciiUpper kw = map asciiUpper (lit ''debates'')"
      and "\<forall>c\<in>set ws. isSpace c"
      and "ident \<noteq> []" and "\<forall>c\<in>set ident. isWordDash c"
      and "rest = [] \<or> \<not> isWordDash (hd rest)"
      and "annotation = kw @ [58] @ ws @ ident"
      and "rtext = pre @ annotation @ rest"
      and "\<forall>i<length pre. linkAt (drop i rtext) = None"
  shows "linkMatch rtext = Some annotation
         \<and> formatReasoning rtext maxLen
           = (if includesStr (truncatedReasoning rtext maxLen) annotation
              then truncatedReasoning rtext maxLen
              else truncatedReasoning rtext maxLen @ linkPrefix @ annotation)
         \<and> (length rtext \<le> maxLen \<longrightarrow> formatReasoning rtext maxLen = rtext)"
proof -
  let ?s = "kw @ [58] @ ws @ ident @ rest"
  from singleLinkAt_annotation [OF assms(1-5)] assms(6)
  have "linkAt ?s = Some (length annotation)"
    by (simp add: linkAt_def)
  then have "linkMatch ?s = Some (take (length annotation) ?s)"
    by (rule linkMatch_at) simp
  with assms(6) have here: "linkMatch ?s = Some annotation"
    by simp
  from assms(6,7) have rs: "rtext = pre @ ?s"
    by simp
  with assms(8) have "linkMatch (pre @ ?s) = linkMatch ?s"
    by (intro linkMatch_skip) simp
  with here rs have m: "linkMatch rtext = Some annotation"
    by simp
  from rs have ne: "rtext \<noteq> []"
    by simp
  from m ne have f: "formatReasoning rtext maxLen
           = (if includesStr (truncatedReasoning rtext maxLen) annotation
              then truncatedReasoning rtext maxLen
              else truncatedReasoning rtext maxLen @ linkPrefix @ annotation)"
    by (simp add: formatReasoning_def Let_def)
  have "includesStr rtext annotation"
    unfolding assms(7) by (rule includesStr_middle)
  with f have u: "length rtext \<le> maxLen \<longrightarrow> formatReasoning rtext maxLen = rtext"
    by (simp add: truncatedReasoning_def)
  from m f u show ?thesis by blast
qed

theorem formatReasoning_link_annotation_witness:
  "formatReasoning
     (lit ''Some long preamble text that will be truncated. builds_on: base_idea and then more text'')
     30
   = lit ''Some long preamble text that w...'' @ linkPrefix @ lit ''builds_on: base_idea''
   \<and> formatReasoning (lit ''builds_on: base_idea and then we added more features'') 200
     = lit ''builds_on: base_idea and then we added more features''"
proof -
  let ?pre = "lit ''Some long preamble text that will be truncated. ''"
  let ?ann = "lit ''builds_on: base_idea''"
  let ?rest = "lit '' and then more text''"
  let ?r = "lit ''Some long preamble text that will be truncated. builds_on: base_idea and then more text''"
  let ?rest2 = "lit '' and then we added more features''"
  let ?r2 = "lit ''builds_on: base_idea and then we added more features''"
  have a1: "map asciiUpper (lit ''builds_on'') = map asciiUpper (lit ''builds_on'')
            \<or> map asciiUpper (lit ''builds_on'') = map asciiUpper (lit ''debates'')"
    by simp
  have a2: "\<forall>c\<in>set [32]. isSpace c"
    by (simp add: isSpace_def)
  have a3: "lit ''base_idea'' \<noteq> []"
    by (simp add: lit_def)
  have a4: "\<forall>c\<in>set (lit ''base_idea''). isWordDash c"
    by (simp add: lit_def isWordDash_def)
  have a5: "?rest = [] \<or> \<not> isWordDash (hd ?rest)"
    by (simp add: lit_def isWordDash_def)
  have a6: "?ann = lit ''builds_on'' @ [58] @ [32] @ lit ''base_idea''"
    by (simp add: lit_def)
  have a7: "?r = ?pre @ ?ann @ ?rest"
    by (simp add: lit_def)
  have "noLinkBefore ?pre (?ann @ ?rest)"
    by (simp add: lit_def linkAt_def singleLinkAt_def synthLinkAt_def keywordAt_def ciPrefix_def
          asciiUpper_def)
  then have "\<forall>i<length ?pre. linkAt (drop i (?pre @ ?ann @ ?rest)) = None"
    by (rule noLinkBefore_all)
  with a7 have a8: "\<forall>i<length ?pre. linkAt (drop i ?r) = None"
    by (simp only:)
  have t: "truncatedReasoning ?r 30 = lit ''Some long preamble text that w...''"
    by (simp add: truncatedReasoning_def ellipsis_def lit_def)
  have n: "\<not> includesStr (lit ''Some long preamble text that w...'') ?ann"
    by (simp add: lit_def)
  from formatReasoning_link_annotation [OF a1 a2 a3 a4 a5 a6 a7 a8, of 30] t n
  have first: "formatReasoning ?r 30
               = lit ''Some long preamble text that w...'' @ linkPrefix @ ?ann"
    by simp
  have b5: "?rest2 = [] \<or> \<not> isWordDash (hd ?rest2)"
    by (simp add: lit_def isWordDash_def)
  have b7: "?r2 = [] @ ?ann @ ?rest2"
    by (simp add: lit_def)
  have b8: "\<forall>i<length ([]::jsstring). linkAt (drop i ?r2) = None"
    by simp
  have l: "length ?r2 \<le> 200"
    by (simp add: lit_def)
  from formatReasoning_link_annotation [OF a1 a2 a3 a4 b5 a6 b7 b8, of 200] l
  have second: "formatReasoning ?r2 200 = ?r2"
    by blast
  from first second show ?thesis by blast
qed

end
